theory Spec2Isabelle
  imports Complex_Main "HOL-Library.AList"
begin

section \<open>Data model\<close>

text \<open>
  The renderers of \<^verbatim>\<open>depender/graph/render.py\<close> work on a \<^verbatim>\<open>Graph\<close> of \<^verbatim>\<open>Node\<close>s.
  Python exceptions are values of \<open>error\<close>; a function that can raise returns
  \<open>error + 'a\<close> with \<open>Inl\<close> for the exception.
\<close>

datatype error = AttributeError | TypeError | IndexError | ZeroDivisionError | ValueError | NotATreeError

text \<open>
  Modelled from the spec: the class \<^verbatim>\<open>Node\<close> of \<^verbatim>\<open>depender/graph/graph.py\<close>, which is
  not among the sources. The geometry fields and \<open>index\<close> are unset (\<open>None\<close>) until a
  renderer assigns them. Coordinates are Python floats; they are only copied by the
  code below and are taken as rationals.
\<close>

record Node =
  name :: string
  type :: string
  label :: string
  x :: "rat option"
  y :: "rat option"
  width :: "rat option"
  height :: "rat option"
  index :: "nat option"

text \<open>
  Modelled from the spec: the node that \<^verbatim>\<open>add_node(name, type, label)\<close> creates, with
  no geometry and no index.
\<close>

definition new_node :: "string \<Rightarrow> string \<Rightarrow> string \<Rightarrow> Node" where
  "new_node n t l =
     \<lparr>name = n, type = t, label = l, x = None, y = None, width = None, height = None,
      index = None\<rparr>"

text \<open>
  Modelled from the spec: the class \<^verbatim>\<open>Graph\<close> of \<^verbatim>\<open>depender/graph/graph.py\<close>.
  \<open>nodes\<close> is an insertion-ordered dictionary from name to node, \<open>edges\<close> an
  insertion-ordered dictionary from source name to a dictionary from destination name to
  multiplicity. Both are association lists in insertion order.
\<close>

record Graph =
  nodes :: "(string \<times> Node) list"
  edges :: "(string \<times> (string \<times> nat) list) list"

text \<open>Modelled from the spec: \<^verbatim>\<open>Graph.get_node\<close>, the node of that name or \<open>None\<close>.\<close>

definition get_node :: "Graph \<Rightarrow> string \<Rightarrow> Node option" where
  "get_node g n = map_of (nodes g) n"

text \<open>Modelled from the spec: \<^verbatim>\<open>Graph.node_count\<close>.\<close>

definition node_count :: "Graph \<Rightarrow> nat" where
  "node_count g = length (nodes g)"

text \<open>Modelled from the spec: \<^verbatim>\<open>Graph.get_all_node_names\<close>, the names in insertion order.\<close>

definition get_all_node_names :: "Graph \<Rightarrow> string list" where
  "get_all_node_names g = map fst (nodes g)"

text \<open>Modelled from the spec: \<^verbatim>\<open>Graph.nodes_iter\<close>, the nodes in insertion order.\<close>

definition nodes_iter :: "Graph \<Rightarrow> Node list" where
  "nodes_iter g = map snd (nodes g)"

text \<open>
  Modelled from the spec: \<^verbatim>\<open>Graph.edges_iter\<close>, the pairs of a source name and its
  dictionary from destination name to multiplicity.
\<close>

definition edges_iter :: "Graph \<Rightarrow> (string \<times> (string \<times> nat) list) list" where
  "edges_iter g = edges g"

text \<open>
  Modelled from the spec: \<^verbatim>\<open>Graph.out_degree\<close> and \<^verbatim>\<open>Graph.in_degree\<close>, the sums of
  the multiplicities of the edges that leave and that reach a node.
\<close>

definition out_degree :: "Graph \<Rightarrow> string \<Rightarrow> nat" where
  "out_degree g n = sum_list (map (\<lambda>(s, ds). if s = n then sum_list (map snd ds) else 0) (edges g))"

definition in_degree :: "Graph \<Rightarrow> string \<Rightarrow> nat" where
  "in_degree g n =
     sum_list (map (\<lambda>(s, ds). sum_list (map (\<lambda>(d, m). if d = n then m else 0) ds)) (edges g))"

text \<open>The total multiplicity of the edges of a graph.\<close>

definition total_multiplicity :: "Graph \<Rightarrow> nat" where
  "total_multiplicity g = sum_list (map (\<lambda>(s, ds). sum_list (map snd ds)) (edges g))"

text \<open>
  The invariants of a populated graph: the keys of each dictionary are distinct, and
  both endpoints of every edge are names of nodes.
\<close>

definition graph_ok :: "Graph \<Rightarrow> bool" where
  "graph_ok g \<longleftrightarrow>
     distinct (map fst (nodes g)) \<and>
     distinct (map fst (edges g)) \<and>
     list_all (\<lambda>(s, ds). distinct (map fst ds) \<and> s \<in> set (map fst (nodes g)) \<and>
                 list_all (\<lambda>(d, m). d \<in> set (map fst (nodes g))) ds) (edges g)"

text \<open>
  The pairs (source, destination) in the order in which the two nested loops over
  \<^verbatim>\<open>edges_iter()\<close> visit them: iterating a dictionary yields its keys.
\<close>

definition edge_pairs :: "Graph \<Rightarrow> (string \<times> string) list" where
  "edge_pairs g = concat (map (\<lambda>(s, ds). map (\<lambda>d. (s, d)) (map fst ds)) (edges_iter g))"

text \<open>
  \<^verbatim>\<open>GraphRenderer.__init__\<close>: the colours and the output directory. The renderer
  passes colours on unchanged, so their representation is a type parameter: the
  command line supplies strings.
\<close>

record 'c GraphRenderer =
  in_color :: 'c
  out_color :: 'c
  dis_color :: 'c
  output_dir :: string
  root_dir_color :: 'c
  dir_color :: 'c
  file_color :: 'c

section \<open>The dependency matrix\<close>

text \<open>The columns of the plot data of \<^verbatim>\<open>render_dependency_matrix\<close> and the two axis ranges.\<close>

record MatrixData =
  x_range :: "string list"
  y_range :: "string list"
  importing_name :: "string list"
  imported_name :: "string list"
  color :: "string list"
  matrix :: "int list"

text \<open>\<^verbatim>\<open>graph.get_node(node).index = index\<close>: \<open>None\<close> has no attribute \<open>index\<close>.\<close>

definition set_index :: "Graph \<Rightarrow> string \<Rightarrow> nat \<Rightarrow> error + Graph" where
  "set_index g n i =
     (case get_node g n of
        None \<Rightarrow> Inl AttributeError
      | Some nd \<Rightarrow> Inr (g\<lparr>nodes := AList.update n (nd\<lparr>index := Some i\<rparr>) (nodes g)\<rparr>))"

text \<open>\<^verbatim>\<open>for index, node in enumerate(node_names): graph.get_node(node).index = index\<close>\<close>

fun assign_indices :: "Graph \<Rightarrow> (nat \<times> string) list \<Rightarrow> error + Graph" where
  "assign_indices g [] = Inr g"
| "assign_indices g ((i, n) # rest) =
     (case set_index g n i of Inl e \<Rightarrow> Inl e | Inr g' \<Rightarrow> assign_indices g' rest)"

text \<open>
  The two nested loops over \<open>node_names\<close> that append to \<^verbatim>\<open>data["importing_name"]\<close> and
  \<^verbatim>\<open>data["imported_name"]\<close>.
\<close>

fun name_cells_inner ::
  "string \<Rightarrow> string list \<Rightarrow> string list \<times> string list \<Rightarrow> string list \<times> string list" where
  "name_cells_inner source_node [] d = d"
| "name_cells_inner source_node (sink_node # rest) (ing, ed) =
     name_cells_inner source_node rest (ing @ [source_node], ed @ [sink_node])"

fun name_cells ::
  "string list \<Rightarrow> string list \<Rightarrow> string list \<times> string list \<Rightarrow> string list \<times> string list" where
  "name_cells [] node_names d = d"
| "name_cells (source_node # rest) node_names d =
     name_cells rest node_names (name_cells_inner source_node node_names d)"

text \<open>\<^verbatim>\<open>graph.get_node(n).index\<close> as a list index.\<close>

definition node_index :: "Graph \<Rightarrow> string \<Rightarrow> error + nat" where
  "node_index g n =
     (case get_node g n of
        None \<Rightarrow> Inl AttributeError
      | Some nd \<Rightarrow> (case index nd of None \<Rightarrow> Inl TypeError | Some i \<Rightarrow> Inr i))"

text \<open>
  \<^verbatim>\<open>matrix[i][j] += 1\<close> with \<open>i\<close> and \<open>j\<close> the indices of the two nodes: the row is read
  before the index of the sink is looked up.
\<close>

definition matrix_incr :: "Graph \<Rightarrow> string \<Rightarrow> string \<Rightarrow> int list list \<Rightarrow> error + int list list" where
  "matrix_incr g source_node sink_node m =
     (case node_index g source_node of
        Inl e \<Rightarrow> Inl e
      | Inr i \<Rightarrow>
          if length m \<le> i then Inl IndexError
          else (case node_index g sink_node of
                  Inl e \<Rightarrow> Inl e
                | Inr j \<Rightarrow>
                    if length (m ! i) \<le> j then Inl IndexError
                    else Inr (m[i := (m ! i)[j := (m ! i) ! j + 1]])))"

text \<open>\<^verbatim>\<open>for sink_node in sink_nodes: matrix[...][...] += 1\<close>\<close>

fun accumulate_sinks :: "Graph \<Rightarrow> string \<Rightarrow> string list \<Rightarrow> int list list \<Rightarrow> error + int list list" where
  "accumulate_sinks g source_node [] m = Inr m"
| "accumulate_sinks g source_node (sink_node # rest) m =
     (case matrix_incr g source_node sink_node m of
        Inl e \<Rightarrow> Inl e
      | Inr m' \<Rightarrow> accumulate_sinks g source_node rest m')"

text \<open>\<^verbatim>\<open>for source_node, sink_nodes in graph.edges_iter(): ...\<close>\<close>

fun accumulate ::
  "Graph \<Rightarrow> (string \<times> (string \<times> nat) list) list \<Rightarrow> int list list \<Rightarrow> error + int list list" where
  "accumulate g [] m = Inr m"
| "accumulate g ((source_node, sink_nodes) # rest) m =
     (case accumulate_sinks g source_node (map fst sink_nodes) m of
        Inl e \<Rightarrow> Inl e
      | Inr m' \<Rightarrow> accumulate g rest m')"

text \<open>
  The loop that assigns colours: an element other than 0, 1 and -1 appends nothing.
\<close>

fun assign_colors :: "string GraphRenderer \<Rightarrow> int list \<Rightarrow> string list \<Rightarrow> string list" where
  "assign_colors r [] acc = acc"
| "assign_colors r (element # rest) acc =
     assign_colors r rest
       (if element = 0 then acc @ [''#ffffff'']
        else if element = 1 then acc @ [out_color r]
        else if element = - 1 then acc @ [in_color r]
        else acc)"

text \<open>
  \<^verbatim>\<open>GraphRenderer.render_dependency_matrix\<close>: the plot data and the graph with the
  indices assigned. The figure, its axes and the HTML file are left out.
\<close>

definition render_dependency_matrix ::
  "string GraphRenderer \<Rightarrow> Graph \<Rightarrow> error + (MatrixData \<times> Graph)" where
  "render_dependency_matrix r graph =
     (let node_names = rev (get_all_node_names graph);
          node_count = node_count graph
      in case assign_indices graph (enumerate 0 node_names) of
           Inl e \<Rightarrow> Inl e
         | Inr graph' \<Rightarrow>
             (let empty = replicate node_count (replicate node_count (0::int));
                  (ing, ed) = name_cells node_names node_names ([], [])
              in case accumulate graph' (edges_iter graph') empty of
                   Inl e \<Rightarrow> Inl e
                 | Inr m \<Rightarrow>
                     Inr (\<lparr>x_range = node_names, y_range = node_names,
                           importing_name = ing, imported_name = ed,
                           color = assign_colors r (concat m) [],
                           matrix = concat m\<rparr>, graph')))"

section \<open>The colours of the dependency graph\<close>

text \<open>
  The body of the loop of \<^verbatim>\<open>render_dependency_graph\<close>. The helper
  \<^verbatim>\<open>linear_gradient\<close> of \<^verbatim>\<open>depender/utilities/color.py\<close> is not among the sources and
  is the parameter \<open>gradient\<close>; it is called with the importer colour first.
\<close>

definition node_color ::
  "'c GraphRenderer \<Rightarrow> ('c \<Rightarrow> 'c \<Rightarrow> nat \<Rightarrow> nat \<Rightarrow> error + 'c) \<Rightarrow> Graph \<Rightarrow> string \<Rightarrow> error + 'c" where
  "node_color r gradient graph node =
     (let in_deg = in_degree graph node;
          out_deg = out_degree graph node
      in if in_deg = 0 \<and> out_deg = 0 then Inr (dis_color r)
         else gradient (out_color r) (in_color r) in_deg out_deg)"

text \<open>
  \<^verbatim>\<open>for node in graph.get_all_node_names(): ...\<close> with the two dictionaries
  \<^verbatim>\<open>node_attrs["color"]\<close> and \<^verbatim>\<open>node_attrs["name"]\<close>.
\<close>

fun color_nodes ::
  "'c GraphRenderer \<Rightarrow> ('c \<Rightarrow> 'c \<Rightarrow> nat \<Rightarrow> nat \<Rightarrow> error + 'c) \<Rightarrow> Graph \<Rightarrow> string list \<Rightarrow>
   (string \<rightharpoonup> 'c) \<times> (string \<rightharpoonup> string) \<Rightarrow> error + (string \<rightharpoonup> 'c) \<times> (string \<rightharpoonup> string)" where
  "color_nodes r gradient graph [] attrs = Inr attrs"
| "color_nodes r gradient graph (node # rest) (colors, names) =
     (case node_color r gradient graph node of
        Inl e \<Rightarrow> Inl e
      | Inr c \<Rightarrow> color_nodes r gradient graph rest (colors(node \<mapsto> c), names(node \<mapsto> node)))"

text \<open>
  \<^verbatim>\<open>GraphRenderer.render_dependency_graph\<close>: the node attributes handed to the plot.
  The placement of the nodes by networkx and the figure are left out.
\<close>

definition render_dependency_graph ::
  "'c GraphRenderer \<Rightarrow> ('c \<Rightarrow> 'c \<Rightarrow> nat \<Rightarrow> nat \<Rightarrow> error + 'c) \<Rightarrow> Graph \<Rightarrow>
   error + (string \<rightharpoonup> 'c) \<times> (string \<rightharpoonup> string)" where
  "render_dependency_graph r gradient graph =
     color_nodes r gradient graph (get_all_node_names graph) (Map.empty, Map.empty)"

text \<open>
  Modelled from the spec: the colour representation that \<^verbatim>\<open>linear_gradient\<close> works on.
  \<^verbatim>\<open>depender/utilities/color.py\<close> is not among the sources. The colours that
  \<^verbatim>\<open>main.py\<close> passes are strings of \<^verbatim>\<open>#\<close> and two hexadecimal digits for each of the
  channels red, green and blue, so a channel is a number from 0 to 255. Digits are read
  in either case and written in lower case; a string of another shape is a
  \<open>ValueError\<close>.
\<close>

definition hex_value :: "char \<Rightarrow> nat option" where
  "hex_value c =
     (let n = (of_char c :: nat)
      in if 48 \<le> n \<and> n \<le> 57 then Some (n - 48)
         else if 97 \<le> n \<and> n \<le> 102 then Some (n - 87)
         else if 65 \<le> n \<and> n \<le> 70 then Some (n - 55)
         else None)"

definition hex_digit :: "nat \<Rightarrow> char" where
  "hex_digit n = (if n < 10 then char_of (48 + n) else char_of (87 + n))"

definition hex_channel :: "char \<Rightarrow> char \<Rightarrow> nat option" where
  "hex_channel hi lo =
     (case hex_value hi of
        None \<Rightarrow> None
      | Some h \<Rightarrow> (case hex_value lo of None \<Rightarrow> None | Some l \<Rightarrow> Some (16 * h + l)))"

definition hex_to_rgb :: "string \<Rightarrow> (nat \<times> nat \<times> nat) option" where
  "hex_to_rgb s =
     (if length s = 7 \<and> s ! 0 = CHR ''#'' then
        (case hex_channel (s ! 1) (s ! 2) of
           None \<Rightarrow> None
         | Some r \<Rightarrow>
             (case hex_channel (s ! 3) (s ! 4) of
                None \<Rightarrow> None
              | Some g \<Rightarrow>
                  (case hex_channel (s ! 5) (s ! 6) of
                     None \<Rightarrow> None
                   | Some b \<Rightarrow> Some (r, g, b))))
      else None)"

definition rgb_to_hex :: "nat \<times> nat \<times> nat \<Rightarrow> string" where
  "rgb_to_hex = (\<lambda>(r, g, b).
     [CHR ''#'', hex_digit (r div 16), hex_digit (r mod 16),
      hex_digit (g div 16), hex_digit (g mod 16),
      hex_digit (b div 16), hex_digit (b mod 16)])"

text \<open>
  Modelled from the spec: a mixed channel is
  \<open>out_channel + (in_channel - out_channel) * weight\<close>, rounded and clamped to the valid
  range of the colour representation, 0 to 255.
\<close>

definition mix_channel :: "rat \<Rightarrow> rat \<Rightarrow> rat \<Rightarrow> rat" where
  "mix_channel out_channel in_channel weight = out_channel + (in_channel - out_channel) * weight"

definition clamp_channel :: "int \<Rightarrow> nat" where
  "clamp_channel v = nat (max 0 (min 255 v))"

text \<open>
  Modelled from the spec: \<^verbatim>\<open>linear_gradient\<close> of \<^verbatim>\<open>depender/utilities/color.py\<close>, which is
  not among the sources. Each channel of the two colours is mixed with the weight
  \<open>in_degree / (in_degree + out_degree)\<close>, rounded and clamped. The spec does not say how
  a channel is rounded, so the rounding is the parameter \<open>rounding\<close> (\<open>floor\<close>,
  \<open>ceiling\<close>, \<open>round\<close>, ...). The weight is a Python float and is taken as a rational.
  Python's division raises when both degrees are zero.
\<close>

definition linear_gradient :: "(rat \<Rightarrow> int) \<Rightarrow> string \<Rightarrow> string \<Rightarrow> nat \<Rightarrow> nat \<Rightarrow> error + string" where
  "linear_gradient rounding start finish in_deg out_deg =
     (case hex_to_rgb start of
        None \<Rightarrow> Inl ValueError
      | Some (rs, gs, bs) \<Rightarrow>
          (case hex_to_rgb finish of
             None \<Rightarrow> Inl ValueError
           | Some (rf, gf, bf) \<Rightarrow>
               if in_deg + out_deg = 0 then Inl ZeroDivisionError
               else (let weight = of_nat in_deg / of_nat (in_deg + out_deg)
                     in Inr (rgb_to_hex
                          (clamp_channel (rounding (mix_channel (of_nat rs) (of_nat rf) weight)),
                           clamp_channel (rounding (mix_channel (of_nat gs) (of_nat gf) weight)),
                           clamp_channel (rounding (mix_channel (of_nat bs) (of_nat bf) weight)))))))"

section \<open>The structure graph\<close>

text \<open>The columns of \<^verbatim>\<open>node_data\<close> and of \<^verbatim>\<open>edge_data\<close> in \<^verbatim>\<open>render_structure_graph\<close>.\<close>

record 'c NodeData =
  center_x :: "rat option list"
  center_y :: "rat option list"
  width :: "rat option list"
  height :: "rat option list"
  name :: "string list"
  type :: "string list"
  label :: "string list"
  font_size :: "rat list"
  color :: "'c list"

record EdgeData =
  xs :: "(rat option \<times> rat option) list"
  ys :: "(rat option \<times> rat option) list"

text \<open>\<^verbatim>\<open>for node in graph.nodes_iter(): ...\<close>: one entry per column for every node.\<close>

fun collect_nodes :: "'c GraphRenderer \<Rightarrow> rat \<Rightarrow> Node list \<Rightarrow> 'c NodeData \<Rightarrow> 'c NodeData" where
  "collect_nodes r base_font_size [] node_data = node_data"
| "collect_nodes r base_font_size (node # rest) node_data =
     collect_nodes r base_font_size rest
       \<lparr>center_x = center_x node_data @ [Node.x node],
        center_y = center_y node_data @ [Node.y node],
        width = NodeData.width node_data @ [Node.width node],
        height = NodeData.height node_data @ [Node.height node],
        name = NodeData.name node_data @ [Node.label node],
        type = NodeData.type node_data @ [Node.type node],
        label = NodeData.label node_data @ [Node.label node],
        font_size = font_size node_data @ [base_font_size],
        color = NodeData.color node_data @
          [if Node.type node = ''root'' then root_dir_color r
           else if Node.type node = ''directory'' then dir_color r
           else file_color r]\<rparr>"

text \<open>
  \<^verbatim>\<open>for edge_end in edge_ends.keys(): ...\<close>: a pair of coordinates is appended when
  \<^verbatim>\<open>get_node\<close> finds both nodes (a node object is true, \<open>None\<close> is false).
\<close>

fun collect_edge_ends :: "Graph \<Rightarrow> string \<Rightarrow> string list \<Rightarrow> EdgeData \<Rightarrow> EdgeData" where
  "collect_edge_ends graph edge_begin [] edge_data = edge_data"
| "collect_edge_ends graph edge_begin (edge_end # rest) edge_data =
     collect_edge_ends graph edge_begin rest
       (case get_node graph edge_begin of
          None \<Rightarrow> edge_data
        | Some begin_node \<Rightarrow>
            (case get_node graph edge_end of
               None \<Rightarrow> edge_data
             | Some end_node \<Rightarrow>
                 \<lparr>xs = xs edge_data @ [(Node.x begin_node, Node.x end_node)],
                  ys = ys edge_data @ [(Node.y begin_node, Node.y end_node)]\<rparr>))"

text \<open>\<^verbatim>\<open>for edge_begin, edge_ends in graph.edges_iter(): ...\<close>\<close>

fun collect_edges :: "Graph \<Rightarrow> (string \<times> (string \<times> nat) list) list \<Rightarrow> EdgeData \<Rightarrow> EdgeData" where
  "collect_edges graph [] edge_data = edge_data"
| "collect_edges graph ((edge_begin, edge_ends) # rest) edge_data =
     collect_edges graph rest (collect_edge_ends graph edge_begin (map fst edge_ends) edge_data)"

text \<open>
  \<^verbatim>\<open>GraphRenderer.render_structure_graph\<close>: the node data, the edge data and the graph
  as laid out. \<^verbatim>\<open>layout_structure_graph\<close> of \<^verbatim>\<open>depender/graph/layout.py\<close> is not among
  the sources and is the parameter \<open>layout\<close>: it returns the graph with the geometry of
  its nodes assigned, or raises. The step sizes are Python floats, taken as rationals.
\<close>

definition render_structure_graph ::
  "'c GraphRenderer \<Rightarrow> (Graph \<Rightarrow> rat \<Rightarrow> rat \<Rightarrow> error + Graph) \<Rightarrow> Graph \<Rightarrow> rat \<Rightarrow> rat \<Rightarrow> rat \<Rightarrow>
   error + ('c NodeData \<times> EdgeData \<times> Graph)" where
  "render_structure_graph r layout graph base_width base_height base_font_size =
     (let step_x = base_width * base_font_size / 60;
          step_y = base_height * base_font_size * 4 / 10
      in case layout graph step_x step_y of
           Inl e \<Rightarrow> Inl e
         | Inr graph' \<Rightarrow>
             Inr (collect_nodes r base_font_size (nodes_iter graph')
                    \<lparr>center_x = [], center_y = [], width = [], height = [], name = [],
                     type = [], label = [], font_size = [], color = []\<rparr>,
                  collect_edges graph' (edges_iter graph') \<lparr>xs = [], ys = []\<rparr>,
                  graph'))"

section \<open>Auxiliary definitions for the proofs\<close>

text \<open>
  The index that the enumeration leaves on a node: the index of the last pair that
  names the node, and none when no pair does.
\<close>

fun last_index :: "(nat \<times> string) list \<Rightarrow> string \<Rightarrow> nat option" where
  "last_index [] k = None"
| "last_index ((i, n) # rest) k =
     (case last_index rest k of Some j \<Rightarrow> Some j | None \<Rightarrow> if k = n then Some i else None)"

definition with_index :: "nat option \<Rightarrow> Node \<Rightarrow> Node" where
  "with_index io nd = (case io of None \<Rightarrow> nd | Some i \<Rightarrow> nd\<lparr>index := Some i\<rparr>)"

definition indexed_nodes :: "(nat \<times> string) list \<Rightarrow> (string \<times> Node) list \<Rightarrow> (string \<times> Node) list" where
  "indexed_nodes ps ns = map (\<lambda>(k, nd). (k, with_index (last_index ps k) nd)) ns"

text \<open>The graph as \<^verbatim>\<open>render_dependency_matrix\<close> leaves it: the indices assigned.\<close>

definition indexed :: "Graph \<Rightarrow> Graph" where
  "indexed g = g\<lparr>nodes := indexed_nodes (enumerate 0 (rev (get_all_node_names g))) (nodes g)\<rparr>"

text \<open>The accumulation of the matrix as one loop over the list of edge pairs.\<close>

fun accumulate_pairs :: "Graph \<Rightarrow> (string \<times> string) list \<Rightarrow> int list list \<Rightarrow> error + int list list" where
  "accumulate_pairs g [] m = Inr m"
| "accumulate_pairs g ((s, d) # rest) m =
     (case matrix_incr g s d m of Inl e \<Rightarrow> Inl e | Inr m' \<Rightarrow> accumulate_pairs g rest m')"

definition square :: "nat \<Rightarrow> 'a list list \<Rightarrow> bool" where
  "square N m \<longleftrightarrow> length m = N \<and> (\<forall>row \<in> set m. length row = N)"

definition bump :: "int list list \<Rightarrow> nat \<Rightarrow> nat \<Rightarrow> int list list" where
  "bump m i j = m[i := (m ! i)[j := (m ! i) ! j + 1]]"

text \<open>How many of the pairs increment the cell in row \<open>i\<close> and column \<open>j\<close>.\<close>

definition hits :: "Graph \<Rightarrow> (string \<times> string) list \<Rightarrow> nat \<Rightarrow> nat \<Rightarrow> nat" where
  "hits g ps i j = length (filter (\<lambda>(s, d). node_index g s = Inr i \<and> node_index g d = Inr j) ps)"

text \<open>The multiplicity that the edge dictionary stores for a pair of nodes, 0 when absent.\<close>

definition multiplicity :: "Graph \<Rightarrow> string \<Rightarrow> string \<Rightarrow> nat" where
  "multiplicity g s d =
     (case map_of (edges g) s of
        None \<Rightarrow> 0
      | Some ds \<Rightarrow> (case map_of ds d of None \<Rightarrow> 0 | Some k \<Rightarrow> k))"

text \<open>No cell of the matrix is negative.\<close>

definition nonneg :: "int list list \<Rightarrow> bool" where
  "nonneg m \<longleftrightarrow> (\<forall>row \<in> set m. \<forall>e \<in> set row. 0 \<le> e)"

text \<open>
  The pair of x coordinates and the pair of y coordinates of an edge, when both of its
  names are names of nodes.
\<close>

definition edge_coordinates ::
  "Graph \<Rightarrow> string \<times> string \<Rightarrow> ((rat option \<times> rat option) \<times> (rat option \<times> rat option)) option" where
  "edge_coordinates g = (\<lambda>(s, d).
     case get_node g s of
       None \<Rightarrow> None
     | Some b \<Rightarrow>
         (case get_node g d of
            None \<Rightarrow> None
          | Some e \<Rightarrow> Some ((Node.x b, Node.x e), (Node.y b, Node.y e))))"

text \<open>The colour of a node of the structure graph by its type.\<close>

definition type_color :: "'c GraphRenderer \<Rightarrow> string \<Rightarrow> 'c" where
  "type_color r t =
     (if t = ''root'' then root_dir_color r
      else if t = ''directory'' then dir_color r
      else file_color r)"

section \<open>Example inputs\<close>

text \<open>The dependency graph of the spec's example: A imports B twice, B imports A once, C is isolated.\<close>

definition example_graph :: Graph where
  "example_graph =
     \<lparr>nodes = [(''A'', new_node ''A'' ''module'' ''A''),
               (''B'', new_node ''B'' ''module'' ''B''),
               (''C'', new_node ''C'' ''module'' ''C'')],
      edges = [(''A'', [(''B'', 2)]), (''B'', [(''A'', 1)])]\<rparr>"

text \<open>The colours that \<^verbatim>\<open>main.py\<close> passes by default.\<close>

definition cli_renderer :: "string GraphRenderer" where
  "cli_renderer =
     \<lparr>in_color = ''#F26D90'', out_color = ''#428AFF'', dis_color = ''#FCB16F'',
      output_dir = ''graphs'', root_dir_color = ''#377FB4'', dir_color = ''#82CBBA'',
      file_color = ''#ECF7B3''\<rparr>"

text \<open>
  A structure graph: a root with a directory and a file, and one edge to a name that
  is not a node. The node \<open>x.dat\<close> has a type outside root, directory and file.
\<close>

definition example_tree :: Graph where
  "example_tree =
     \<lparr>nodes = [(''/'', (new_node ''/'' ''root'' ''/'')\<lparr>x := Some 0, y := Some 0\<rparr>),
               (''/src'', (new_node ''/src'' ''directory'' ''src'')\<lparr>x := Some (- 1), y := Some 1\<rparr>),
               (''/a.py'', (new_node ''/a.py'' ''file'' ''a.py'')\<lparr>x := Some 1, y := Some 1\<rparr>),
               (''/x.dat'', (new_node ''/x.dat'' ''link'' ''x.dat'')\<lparr>x := Some 2, y := Some 1\<rparr>)],
      edges = [(''/'', [(''/src'', 1), (''/gone'', 1), (''/a.py'', 1)])]\<rparr>"


text \<open>A layout that leaves the geometry as it is.\<close>

definition keep_layout :: "Graph \<Rightarrow> rat \<Rightarrow> rat \<Rightarrow> error + Graph" where
  "keep_layout g step_x step_y = Inr g"

text \<open>The example graph with the indices of the reversed node order, and its matrix data.\<close>

definition example_indexed :: Graph where
  "example_indexed =
     \<lparr>nodes = [(''A'', (new_node ''A'' ''module'' ''A'')\<lparr>index := Some 2\<rparr>),
               (''B'', (new_node ''B'' ''module'' ''B'')\<lparr>index := Some 1\<rparr>),
               (''C'', (new_node ''C'' ''module'' ''C'')\<lparr>index := Some 0\<rparr>)],
      edges = [(''A'', [(''B'', 2)]), (''B'', [(''A'', 1)])]\<rparr>"

definition example_matrix_data :: MatrixData where
  "example_matrix_data =
     \<lparr>x_range = [''C'', ''B'', ''A''], y_range = [''C'', ''B'', ''A''],
      importing_name = [''C'', ''C'', ''C'', ''B'', ''B'', ''B'', ''A'', ''A'', ''A''],
      imported_name = [''C'', ''B'', ''A'', ''C'', ''B'', ''A'', ''C'', ''B'', ''A''],
      MatrixData.color = [''#ffffff'', ''#ffffff'', ''#ffffff'', ''#ffffff'', ''#ffffff'',
                          ''#428AFF'', ''#ffffff'', ''#428AFF'', ''#ffffff''],
      matrix = [0, 0, 0, 0, 0, 1, 0, 1, 0]\<rparr>"

section \<open>Lemmas about the dependency matrix\<close>

lemma update_distinct_map:
  "distinct (map fst al) \<Longrightarrow> map_of al n = Some v \<Longrightarrow>
   AList.update n (f v) al = map (\<lambda>(k, w). (k, if k = n then f w else w)) al"
proof (induction al)
  case Nil
  then show ?case by simp
next
  case (Cons p al)
  obtain k w where p: "p = (k, w)" by (cases p)
  show ?case
  proof (cases "k = n")
    case True
    with Cons.prems p have "n \<notin> fst ` set al" by auto
    then have "map (\<lambda>(k, w). (k, if k = n then f w else w)) al = al"
      by (induction al) auto
    with True p Cons.prems show ?thesis by simp
  next
    case False
    with Cons p show ?thesis by simp
  qed
qed

lemma map_fst_keyed [simp]: "map fst (map (\<lambda>(k, w). (k, h k w)) ns) = map fst ns"
  by (induction ns) auto

lemma snd_set_enumerate: "snd ` set (enumerate s ns) = set ns"
  by (metis map_snd_enumerate set_map)

lemma map_fst_indexed_nodes [simp]: "map fst (indexed_nodes ps ns) = map fst ns"
  by (induction ns) (auto simp: indexed_nodes_def)

lemma indexed_nodes_Nil [simp]: "indexed_nodes [] ns = ns"
  by (induction ns) (auto simp: indexed_nodes_def with_index_def)

lemma with_index_step:
  "with_index (last_index rest k) (if k = n then v\<lparr>index := Some i\<rparr> else v) =
   with_index (last_index ((i, n) # rest) k) v"
  by (cases "last_index rest k") (simp_all add: with_index_def)

lemma indexed_nodes_step:
  "indexed_nodes rest (map (\<lambda>(k, w). (k, if k = n then w\<lparr>index := Some i\<rparr> else w)) ns) =
   indexed_nodes ((i, n) # rest) ns"
  unfolding indexed_nodes_def
  by (induction ns) (auto simp: with_index_step simp del: last_index.simps)

lemma assign_indices_eq:
  "distinct (map fst (nodes g)) \<Longrightarrow> snd ` set ps \<subseteq> fst ` set (nodes g) \<Longrightarrow>
   assign_indices g ps = Inr (g\<lparr>nodes := indexed_nodes ps (nodes g)\<rparr>)"
proof (induction ps arbitrary: g)
  case Nil
  then show ?case by simp
next
  case (Cons p ps)
  obtain i n where p: "p = (i, n)" by (cases p)
  with Cons.prems have "n \<in> fst ` set (nodes g)" by simp
  then obtain v where v: "map_of (nodes g) n = Some v"
    by (metis domD dom_map_of_conv_image_fst)
  let ?ns = "map (\<lambda>(k, w). (k, if k = n then w\<lparr>index := Some i\<rparr> else w)) (nodes g)"
  let ?g1 = "g\<lparr>nodes := ?ns\<rparr>"
  have upd: "AList.update n (v\<lparr>index := Some i\<rparr>) (nodes g) = ?ns"
    using update_distinct_map [OF Cons.prems(1) v, of "\<lambda>w. w\<lparr>index := Some i\<rparr>"] by simp
  have s: "set_index g n i = Inr ?g1"
    by (simp add: set_index_def get_node_def v upd)
  have keys: "map fst ?ns = map fst (nodes g)"
    by (rule map_fst_keyed)
  have "assign_indices ?g1 ps = Inr (?g1\<lparr>nodes := indexed_nodes ps (nodes ?g1)\<rparr>)"
  proof (rule Cons.IH)
    have n1: "nodes ?g1 = ?ns" by simp
    show "distinct (map fst (nodes ?g1))" using Cons.prems(1) unfolding n1 keys .
    have "set (map fst (nodes ?g1)) = set (map fst (nodes g))"
      unfolding n1 keys ..
    then have "fst ` set (nodes ?g1) = fst ` set (nodes g)"
      by (simp only: set_map)
    then show "snd ` set ps \<subseteq> fst ` set (nodes ?g1)" using Cons.prems(2) by auto
  qed
  then show ?case
    by (simp add: p s indexed_nodes_step del: last_index.simps)
qed

lemma last_index_notin: "k \<notin> snd ` set ps \<Longrightarrow> last_index ps k = None"
  by (induction ps) (auto split: option.splits)

lemma last_index_enumerate:
  "distinct ns \<Longrightarrow> i < length ns \<Longrightarrow> last_index (enumerate s ns) (ns ! i) = Some (s + i)"
proof (induction ns arbitrary: s i)
  case Nil
  then show ?case by simp
next
  case (Cons a ns)
  show ?case
  proof (cases i)
    case 0
    have "a \<notin> snd ` set (enumerate (Suc s) ns)" using Cons.prems(1) by (simp add: snd_set_enumerate)
    then have "last_index (enumerate (Suc s) ns) a = None" by (rule last_index_notin)
    with 0 show ?thesis by simp
  next
    case (Suc j)
    with Cons show ?thesis by simp
  qed
qed

lemma map_of_indexed_nodes:
  "map_of (indexed_nodes ps ns) k = map_option (with_index (last_index ps k)) (map_of ns k)"
  by (induction ns) (auto simp: indexed_nodes_def)

lemma accumulate_pairs_append:
  "accumulate_pairs g (ps @ qs) m =
   (case accumulate_pairs g ps m of Inl e \<Rightarrow> Inl e | Inr m' \<Rightarrow> accumulate_pairs g qs m')"
  by (induction ps arbitrary: m) (auto split: sum.splits)

lemma accumulate_sinks_pairs:
  "accumulate_sinks g s ds m = accumulate_pairs g (map (\<lambda>d. (s, d)) ds) m"
  by (induction ds arbitrary: m) (auto split: sum.splits)

lemma accumulate_pairs_eq:
  "accumulate g es m = accumulate_pairs g (concat (map (\<lambda>(s, ds). map (\<lambda>d. (s, d)) (map fst ds)) es)) m"
  by (induction es arbitrary: m)
     (auto simp: accumulate_pairs_append accumulate_sinks_pairs split: sum.splits)

lemma square_bump: "square N m \<Longrightarrow> square N (bump m i j)"
proof (cases "i < length m")
  case True
  assume sq: "square N m"
  with True have "length ((m ! i)[j := (m ! i) ! j + 1]) = N"
    by (simp add: square_def)
  with sq show ?thesis
    unfolding square_def bump_def
    by (auto dest!: set_update_subset_insert [THEN subsetD])
next
  case False
  assume "square N m"
  moreover from False have "m[i := (m ! i)[j := (m ! i) ! j + 1]] = m"
    by (simp add: list_update_beyond)
  ultimately show ?thesis by (simp add: bump_def)
qed

lemma bump_nth:
  "square N m \<Longrightarrow> i < N \<Longrightarrow> j < N \<Longrightarrow> a < N \<Longrightarrow> b < N \<Longrightarrow>
   bump m i j ! a ! b = m ! a ! b + (if a = i \<and> b = j then 1 else 0)"
  unfolding square_def bump_def
  by (auto simp: nth_list_update)

lemma sum_list_update_int:
  "k < length l \<Longrightarrow> sum_list (l[k := v]) = sum_list l + v - (l ! k :: int)"
  by (induction l arbitrary: k) (auto split: nat.splits)

lemma sum_concat_update:
  "i < length m \<Longrightarrow> sum_list (concat (m[i := row])) = sum_list (concat m) + sum_list row - sum_list (m ! i :: int list)"
  by (induction m arbitrary: i) (auto split: nat.splits)

lemma sum_bump:
  "square N m \<Longrightarrow> i < N \<Longrightarrow> j < N \<Longrightarrow> sum_list (concat (bump m i j)) = sum_list (concat m) + 1"
  unfolding square_def bump_def
  by (simp add: sum_concat_update sum_list_update_int)

lemma matrix_incr_ok:
  "square N m \<Longrightarrow> node_index g s = Inr i \<Longrightarrow> node_index g d = Inr j \<Longrightarrow> i < N \<Longrightarrow> j < N \<Longrightarrow>
   matrix_incr g s d m = Inr (bump m i j)"
  unfolding square_def matrix_incr_def bump_def by simp

lemma accumulate_pairs_ok:
  assumes "square N m"
    and "\<forall>(s, d) \<in> set ps. \<exists>i j. node_index g s = Inr i \<and> node_index g d = Inr j \<and> i < N \<and> j < N"
  shows "\<exists>m'. accumulate_pairs g ps m = Inr m' \<and> square N m' \<and>
           (\<forall>a<N. \<forall>b<N. m' ! a ! b = m ! a ! b + int (hits g ps a b)) \<and>
           sum_list (concat m') = sum_list (concat m) + int (length ps)"
  using assms
proof (induction ps arbitrary: m)
  case Nil
  then show ?case by (simp add: hits_def)
next
  case (Cons p ps)
  obtain s d where p: "p = (s, d)" by (cases p)
  from Cons.prems(2) p obtain i j where
    ij: "node_index g s = Inr i" "node_index g d = Inr j" "i < N" "j < N" by auto
  have step: "matrix_incr g s d m = Inr (bump m i j)"
    using matrix_incr_ok [OF Cons.prems(1) ij] .
  have sq: "square N (bump m i j)" using Cons.prems(1) by (rule square_bump)
  from Cons.IH [OF sq] Cons.prems(2) obtain m' where
    m': "accumulate_pairs g ps (bump m i j) = Inr m'" "square N m'"
        "\<forall>a<N. \<forall>b<N. m' ! a ! b = bump m i j ! a ! b + int (hits g ps a b)"
        "sum_list (concat m') = sum_list (concat (bump m i j)) + int (length ps)"
    by auto
  have cells: "m' ! a ! b = m ! a ! b + int (hits g (p # ps) a b)" if "a < N" "b < N" for a b
  proof -
    have "hits g (p # ps) a b = (if a = i \<and> b = j then 1 else 0) + hits g ps a b"
      using ij by (auto simp: hits_def p)
    then show ?thesis
      using m'(3) that bump_nth [OF Cons.prems(1) ij(3,4) that] by simp
  qed
  have "sum_list (concat m') = sum_list (concat m) + int (length (p # ps))"
    using m'(4) sum_bump [OF Cons.prems(1) ij(3,4)] by simp
  with m'(1,2) cells step show ?case by (simp add: p)
qed

lemma nth_concat_rows:
  "\<forall>row \<in> set m. length row = N \<Longrightarrow> i < length m \<Longrightarrow> j < N \<Longrightarrow>
   concat m ! (i * N + j) = m ! i ! j"
proof (induction m arbitrary: i)
  case Nil
  then show ?case by simp
next
  case (Cons row m)
  then have len: "length row = N" by simp
  show ?case
  proof (cases i)
    case 0
    with Cons.prems len show ?thesis by (simp add: nth_append)
  next
    case (Suc k)
    have "concat (row # m) ! (i * N + j) = concat m ! (k * N + j)"
      using Suc len by (simp add: nth_append)
    then show ?thesis using Cons.IH [of k] Cons.prems Suc by simp
  qed
qed

lemma nth_concat_square:
  "square N m \<Longrightarrow> i < N \<Longrightarrow> j < N \<Longrightarrow> concat m ! (i * N + j) = m ! i ! j"
  by (simp add: square_def nth_concat_rows)

lemma length_concat_square: "square N m \<Longrightarrow> length (concat m) = N * N"
proof -
  have "(\<forall>row \<in> set m. length row = N) \<Longrightarrow> length (concat m) = length m * N"
    by (induction m) auto
  then show "square N m \<Longrightarrow> length (concat m) = N * N" by (simp add: square_def)
qed

lemma square_replicate: "square N (replicate N (replicate N v))"
  by (simp add: square_def)

lemma assign_colors_01:
  "\<forall>e \<in> set es. e = 0 \<or> e = 1 \<Longrightarrow>
   assign_colors r es acc = acc @ map (\<lambda>e. if e = 0 then ''#ffffff'' else out_color r) es"
  by (induction es arbitrary: acc) auto

lemma name_cells_inner_eq:
  "name_cells_inner s ns (a, b) = (a @ replicate (length ns) s, b @ ns)"
  by (induction ns arbitrary: a b) (auto simp: replicate_append_same)

lemma name_cells_eq:
  "name_cells srcs ns (a, b) =
   (a @ concat (map (\<lambda>s. replicate (length ns) s) srcs), b @ concat (map (\<lambda>s. ns) srcs))"
  by (induction srcs arbitrary: a b) (auto simp: name_cells_inner_eq)

lemma distinct_edge_pairs_aux:
  "distinct (map fst es) \<Longrightarrow> \<forall>(s, ds) \<in> set es. distinct (map fst ds) \<Longrightarrow>
   distinct (concat (map (\<lambda>(s, ds). map (\<lambda>d. (s, d)) (map fst ds)) es))"
proof (induction es)
  case Nil
  then show ?case by simp
next
  case (Cons e es)
  obtain s ds where e: "e = (s, ds)" by (cases e)
  have "distinct (map (\<lambda>d. (s, d)) (map fst ds))"
    using Cons.prems(2) e by (simp add: distinct_map inj_on_def)
  moreover have "distinct (concat (map (\<lambda>(s, ds). map (\<lambda>d. (s, d)) (map fst ds)) es))"
    using Cons by simp
  moreover have "set (map (\<lambda>d. (s, d)) (map fst ds)) \<inter>
      set (concat (map (\<lambda>(s, ds). map (\<lambda>d. (s, d)) (map fst ds)) es)) = {}"
    using Cons.prems(1) e by force
  ultimately show ?case by (simp add: e)
qed

lemma length_filter_eq_distinct:
  "distinct l \<Longrightarrow> length (filter (\<lambda>p. p = t) l) = (if t \<in> set l then 1 else 0)"
  by (induction l) auto

lemma graph_ok_distinct_pairs: "graph_ok g \<Longrightarrow> distinct (edge_pairs g)"
  unfolding graph_ok_def edge_pairs_def edges_iter_def
  by (rule distinct_edge_pairs_aux) (auto simp: list_all_iff)

lemma graph_ok_pairs_nodes:
  "graph_ok g \<Longrightarrow> (s, d) \<in> set (edge_pairs g) \<Longrightarrow>
   s \<in> set (get_all_node_names g) \<and> d \<in> set (get_all_node_names g)"
  unfolding graph_ok_def edge_pairs_def edges_iter_def get_all_node_names_def
  by (fastforce simp: list_all_iff)

lemma assign_indices_indexed:
  "graph_ok g \<Longrightarrow> assign_indices g (enumerate 0 (rev (get_all_node_names g))) = Inr (indexed g)"
  unfolding indexed_def
  by (rule assign_indices_eq)
     (auto simp: graph_ok_def snd_set_enumerate get_all_node_names_def)

lemma indexed_simps [simp]:
  "edges (indexed g) = edges g"
  "get_all_node_names (indexed g) = get_all_node_names g"
  "node_count (indexed g) = node_count g"
  "edge_pairs (indexed g) = edge_pairs g"
  "edges_iter (indexed g) = edges_iter g"
proof -
  show "edges (indexed g) = edges g" by (simp add: indexed_def)
  show "get_all_node_names (indexed g) = get_all_node_names g"
    by (simp add: indexed_def get_all_node_names_def)
  then have "length (get_all_node_names (indexed g)) = length (get_all_node_names g)" by simp
  then show "node_count (indexed g) = node_count g"
    by (simp add: node_count_def get_all_node_names_def)
  show "edge_pairs (indexed g) = edge_pairs g" by (simp add: indexed_def edge_pairs_def edges_iter_def)
  show "edges_iter (indexed g) = edges_iter g" by (simp add: indexed_def edges_iter_def)
qed

lemma node_index_indexed:
  assumes "graph_ok g" "i < node_count g"
  shows "node_index (indexed g) (rev (get_all_node_names g) ! i) = Inr i"
proof -
  let ?ns = "rev (get_all_node_names g)"
  have d: "distinct ?ns" using assms(1) by (simp add: graph_ok_def get_all_node_names_def)
  have l: "i < length ?ns" using assms(2) by (simp add: node_count_def get_all_node_names_def)
  have li: "last_index (enumerate 0 ?ns) (?ns ! i) = Some i"
    using last_index_enumerate [OF d l, of 0] by simp
  have "?ns ! i \<in> fst ` set (nodes g)"
    using nth_mem [OF l] by (simp add: get_all_node_names_def)
  then obtain v where v: "map_of (nodes g) (?ns ! i) = Some v"
    by (metis domD dom_map_of_conv_image_fst)
  show ?thesis
    by (simp add: node_index_def get_node_def indexed_def map_of_indexed_nodes li v with_index_def)
qed

lemma node_index_indexed_inj:
  assumes "graph_ok g" "k \<in> set (get_all_node_names g)" "node_index (indexed g) k = Inr i"
  shows "i < node_count g \<and> rev (get_all_node_names g) ! i = k"
proof -
  let ?ns = "rev (get_all_node_names g)"
  from assms(2) have "k \<in> set ?ns" by simp
  then obtain a where a: "a < length ?ns" "?ns ! a = k" by (metis in_set_conv_nth)
  then have "a < node_count g" by (simp add: node_count_def get_all_node_names_def)
  from node_index_indexed [OF assms(1) this] a(2) assms(3) have "a = i" by simp
  with a \<open>a < node_count g\<close> show ?thesis by simp
qed

lemma hits_indexed:
  assumes ok: "graph_ok g" and a: "a < node_count g" and b: "b < node_count g"
  shows "hits (indexed g) (edge_pairs g) a b =
         (if (rev (get_all_node_names g) ! a, rev (get_all_node_names g) ! b) \<in> set (edge_pairs g)
          then 1 else 0)"
proof -
  let ?ns = "rev (get_all_node_names g)"
  let ?t = "(?ns ! a, ?ns ! b)"
  have "filter (\<lambda>(s, d). node_index (indexed g) s = Inr a \<and> node_index (indexed g) d = Inr b)
          (edge_pairs g) = filter (\<lambda>p. p = ?t) (edge_pairs g)"
  proof (rule filter_cong [OF refl])
    fix p assume p: "p \<in> set (edge_pairs g)"
    obtain s d where sd: "p = (s, d)" by (cases p)
    from graph_ok_pairs_nodes [OF ok] p sd
    have mem: "s \<in> set (get_all_node_names g)" "d \<in> set (get_all_node_names g)" by auto
    show "(case p of (s, d) \<Rightarrow> node_index (indexed g) s = Inr a \<and> node_index (indexed g) d = Inr b)
          = (p = ?t)"
      using node_index_indexed_inj [OF ok mem(1)] node_index_indexed_inj [OF ok mem(2)]
        node_index_indexed [OF ok a] node_index_indexed [OF ok b]
      by (auto simp: sd)
  qed
  moreover have "length (filter (\<lambda>p. p = ?t) (edge_pairs g)) = (if ?t \<in> set (edge_pairs g) then 1 else 0)"
    using graph_ok_distinct_pairs [OF ok] by (rule length_filter_eq_distinct)
  ultimately show ?thesis by (simp add: hits_def)
qed

lemma sum_zero_matrix: "sum_list (concat (replicate a (replicate b (0::int)))) = 0"
  by (induction a) (simp_all add: sum_list_replicate)

lemma accumulate_indexed:
  assumes ok: "graph_ok g"
  shows "\<exists>m. accumulate (indexed g) (edges_iter (indexed g))
               (replicate (node_count g) (replicate (node_count g) 0)) = Inr m \<and>
             square (node_count g) m \<and>
             (\<forall>a<node_count g. \<forall>b<node_count g.
                m ! a ! b = (if (rev (get_all_node_names g) ! a, rev (get_all_node_names g) ! b)
                                 \<in> set (edge_pairs g) then 1 else 0)) \<and>
             sum_list (concat m) = int (length (edge_pairs g))"
proof -
  let ?N = "node_count g"
  let ?ns = "rev (get_all_node_names g)"
  let ?z = "replicate ?N (replicate ?N (0::int))"
  have res: "\<forall>(s, d) \<in> set (edge_pairs g).
      \<exists>i j. node_index (indexed g) s = Inr i \<and> node_index (indexed g) d = Inr j \<and> i < ?N \<and> j < ?N"
  proof (clarify)
    fix s d assume "(s, d) \<in> set (edge_pairs g)"
    with graph_ok_pairs_nodes [OF ok] have "s \<in> set ?ns" "d \<in> set ?ns" by auto
    then obtain i j where "i < length ?ns" "?ns ! i = s" "j < length ?ns" "?ns ! j = d"
      by (metis in_set_conv_nth)
    moreover have "length ?ns = ?N" by (simp add: node_count_def get_all_node_names_def)
    ultimately show "\<exists>i j. node_index (indexed g) s = Inr i \<and> node_index (indexed g) d = Inr j \<and> i < ?N \<and> j < ?N"
      using node_index_indexed [OF ok, of i] node_index_indexed [OF ok, of j] by auto
  qed
  from accumulate_pairs_ok [OF square_replicate res] obtain m where
    m: "accumulate_pairs (indexed g) (edge_pairs g) ?z = Inr m" "square ?N m"
       "\<forall>a<?N. \<forall>b<?N. m ! a ! b = ?z ! a ! b + int (hits (indexed g) (edge_pairs g) a b)"
       "sum_list (concat m) = sum_list (concat ?z) + int (length (edge_pairs g))"
    by blast
  have "accumulate (indexed g) (edges_iter (indexed g)) ?z = Inr m"
    using m(1) by (simp add: accumulate_pairs_eq edge_pairs_def)
  moreover have "\<forall>a<?N. \<forall>b<?N. m ! a ! b = (if (?ns ! a, ?ns ! b) \<in> set (edge_pairs g) then 1 else 0)"
    using m(3) hits_indexed [OF ok] by simp
  moreover have "sum_list (concat ?z) = 0"
    by (rule sum_zero_matrix)
  ultimately show ?thesis using m(2,4) by auto
qed

lemma square_cells_01:
  assumes "square N m" "\<forall>a<N. \<forall>b<N. m ! a ! b = 0 \<or> m ! a ! b = (1::int)"
  shows "\<forall>e \<in> set (concat m). e = 0 \<or> e = 1"
proof
  fix e assume "e \<in> set (concat m)"
  then obtain row where row: "row \<in> set m" "e \<in> set row" by auto
  then obtain a b where "a < length m" "m ! a = row" "b < length row" "row ! b = e"
    by (metis in_set_conv_nth)
  with assms row show "e = 0 \<or> e = 1" by (auto simp: square_def)
qed

lemma render_dependency_matrix_eq:
  assumes ok: "graph_ok g"
  shows "\<exists>m. square (node_count g) m \<and>
             (\<forall>a<node_count g. \<forall>b<node_count g.
                m ! a ! b = (if (rev (get_all_node_names g) ! a, rev (get_all_node_names g) ! b)
                                 \<in> set (edge_pairs g) then 1 else 0)) \<and>
             sum_list (concat m) = int (length (edge_pairs g)) \<and>
             render_dependency_matrix r g =
               Inr (\<lparr>x_range = rev (get_all_node_names g), y_range = rev (get_all_node_names g),
                     importing_name = concat (map (\<lambda>s. replicate (node_count g) s) (rev (get_all_node_names g))),
                     imported_name = concat (map (\<lambda>s. rev (get_all_node_names g)) (rev (get_all_node_names g))),
                     MatrixData.color = map (\<lambda>e. if e = 0 then ''#ffffff'' else out_color r) (concat m),
                     matrix = concat m\<rparr>, indexed g)"
proof -
  let ?N = "node_count g"
  let ?ns = "rev (get_all_node_names g)"
  from accumulate_indexed [OF ok] obtain m where
    m: "accumulate (indexed g) (edges_iter (indexed g)) (replicate ?N (replicate ?N 0)) = Inr m"
       "square ?N m"
       "\<forall>a<?N. \<forall>b<?N. m ! a ! b = (if (?ns ! a, ?ns ! b) \<in> set (edge_pairs g) then 1 else 0)"
       "sum_list (concat m) = int (length (edge_pairs g))"
    by blast
  have "\<forall>a<?N. \<forall>b<?N. m ! a ! b = 0 \<or> m ! a ! b = 1" using m(3) by simp
  from square_cells_01 [OF m(2) this]
  have col: "assign_colors r (concat m) [] = map (\<lambda>e. if e = 0 then ''#ffffff'' else out_color r) (concat m)"
    using assign_colors_01 [of "concat m" r "[]"] by simp
  have len: "length ?ns = ?N" by (simp add: node_count_def get_all_node_names_def)
  have nc: "name_cells ?ns ?ns ([], []) =
      (concat (map (\<lambda>s. replicate ?N s) ?ns), concat (map (\<lambda>s. ?ns) ?ns))"
    using name_cells_eq [of ?ns ?ns "[]" "[]"] len by simp
  have "render_dependency_matrix r g =
      Inr (\<lparr>x_range = ?ns, y_range = ?ns,
            importing_name = concat (map (\<lambda>s. replicate ?N s) ?ns),
            imported_name = concat (map (\<lambda>s. ?ns) ?ns),
            MatrixData.color = map (\<lambda>e. if e = 0 then ''#ffffff'' else out_color r) (concat m),
            matrix = concat m\<rparr>, indexed g)"
    unfolding render_dependency_matrix_def Let_def
    by (simp only: assign_indices_indexed [OF ok] sum.case nc prod.case m(1) col)
  with m(2,3,4) show ?thesis by blast
qed

lemma nth_importing:
  assumes "a < length ns" "b < length ns"
  shows "concat (map (\<lambda>s. replicate (length ns) s) ns) ! (a * length ns + b) = ns ! a"
proof -
  have "\<forall>row \<in> set (map (\<lambda>s. replicate (length ns) s) ns). length row = length ns" by auto
  from nth_concat_rows [OF this, of a b] assms show ?thesis by simp
qed

lemma nth_imported:
  assumes "a < length ns" "b < length ns"
  shows "concat (map (\<lambda>s. ns) ns) ! (a * length ns + b) = ns ! b"
proof -
  have "\<forall>row \<in> set (map (\<lambda>s. ns) ns). length row = length ns" by auto
  from nth_concat_rows [OF this, of a b] assms show ?thesis by simp
qed

lemma length_names: "length (rev (get_all_node_names g)) = node_count g"
  by (simp add: node_count_def get_all_node_names_def)

lemma length_importing: "length (concat (map (\<lambda>s. replicate n s) ns)) = length ns * n"
  by (induction ns) auto

lemma length_imported: "length (concat (map (\<lambda>s. l) ns)) = length ns * length l"
  by (induction ns) auto

section \<open>Claims about the dependency matrix\<close>

text \<open>
  C2: for a graph with N nodes, \<^verbatim>\<open>render_dependency_matrix\<close> returns and each of the
  per-cell lists (importing name, imported name, count, colour) has N * N entries, one
  per ordered pair of nodes: the entry for row \<open>a\<close> and column \<open>b\<close> names the nodes at
  positions \<open>a\<close> and \<open>b\<close> of the reversed node-name sequence.
\<close>

theorem matrix_has_n_squared_cells:
  assumes "graph_ok g"
  shows "\<exists>out g'. render_dependency_matrix r g = Inr (out, g') \<and>
           length (importing_name out) = node_count g * node_count g \<and>
           length (imported_name out) = node_count g * node_count g \<and>
           length (matrix out) = node_count g * node_count g \<and>
           length (MatrixData.color out) = node_count g * node_count g \<and>
           (\<forall>a<node_count g. \<forall>b<node_count g.
              importing_name out ! (a * node_count g + b) = rev (get_all_node_names g) ! a \<and>
              imported_name out ! (a * node_count g + b) = rev (get_all_node_names g) ! b)"
proof -
  let ?N = "node_count g"
  let ?ns = "rev (get_all_node_names g)"
  from render_dependency_matrix_eq [OF assms, of r] obtain m where
    sq: "square ?N m" and
    run: "render_dependency_matrix r g =
      Inr (\<lparr>x_range = ?ns, y_range = ?ns,
            importing_name = concat (map (\<lambda>s. replicate ?N s) ?ns),
            imported_name = concat (map (\<lambda>s. ?ns) ?ns),
            MatrixData.color = map (\<lambda>e. if e = 0 then ''#ffffff'' else out_color r) (concat m),
            matrix = concat m\<rparr>, indexed g)"
    by blast
  have len: "length ?ns = ?N" by (rule length_names)
  have cells: "\<forall>a<?N. \<forall>b<?N.
      concat (map (\<lambda>s. replicate ?N s) ?ns) ! (a * ?N + b) = ?ns ! a \<and>
      concat (map (\<lambda>s. ?ns) ?ns) ! (a * ?N + b) = ?ns ! b"
    using nth_importing [of _ ?ns] nth_imported [of _ ?ns] unfolding len by blast
  have l1: "length (concat (map (\<lambda>s. replicate ?N s) ?ns)) = ?N * ?N"
    unfolding length_importing len ..
  have l2: "length (concat (map (\<lambda>s. ?ns) ?ns)) = ?N * ?N"
    unfolding length_imported len ..
  have l3: "length (concat m) = ?N * ?N" using sq by (rule length_concat_square)
  show ?thesis
    unfolding run using cells l1 l2 l3 by simp
qed

lemma graph_ok_example: "graph_ok example_graph"
  by (simp add: graph_ok_def example_graph_def)

lemma render_example:
  "render_dependency_matrix cli_renderer example_graph =
     Inr (\<lparr>x_range = [''C'', ''B'', ''A''], y_range = [''C'', ''B'', ''A''],
           importing_name = [''C'', ''C'', ''C'', ''B'', ''B'', ''B'', ''A'', ''A'', ''A''],
           imported_name = [''C'', ''B'', ''A'', ''C'', ''B'', ''A'', ''C'', ''B'', ''A''],
           MatrixData.color = [''#ffffff'', ''#ffffff'', ''#ffffff'', ''#ffffff'', ''#ffffff'',
                    ''#428AFF'', ''#ffffff'', ''#428AFF'', ''#ffffff''],
           matrix = [0, 0, 0, 0, 0, 1, 0, 1, 0]\<rparr>,
          \<lparr>nodes = [(''A'', (new_node ''A'' ''module'' ''A'')\<lparr>index := Some 2\<rparr>),
                    (''B'', (new_node ''B'' ''module'' ''B'')\<lparr>index := Some 1\<rparr>),
                    (''C'', (new_node ''C'' ''module'' ''C'')\<lparr>index := Some 0\<rparr>)],
           edges = [(''A'', [(''B'', 2)]), (''B'', [(''A'', 1)])]\<rparr>)"
  by (simp add: render_dependency_matrix_def example_graph_def cli_renderer_def
      get_all_node_names_def node_count_def edges_iter_def set_index_def get_node_def
      matrix_incr_def node_index_def new_node_def enumerate_eq_zip upt_rec numeral_eq_Suc Let_def)

theorem matrix_has_n_squared_cells_witness:
  "graph_ok example_graph \<and>
   (\<exists>out g'. render_dependency_matrix cli_renderer example_graph = Inr (out, g') \<and>
      length (importing_name out) = 9 \<and> length (imported_name out) = 9 \<and>
      length (matrix out) = 9 \<and> length (MatrixData.color out) = 9)"
proof -
  have n: "node_count example_graph = 3" by (simp add: node_count_def example_graph_def)
  from matrix_has_n_squared_cells [OF graph_ok_example, of cli_renderer]
  show ?thesis unfolding n using graph_ok_example by auto
qed

lemma edge_pairs_of_lookup:
  assumes "map_of (edges g) s = Some ds" "map_of ds d = Some k"
  shows "(s, d) \<in> set (edge_pairs g)"
proof -
  from assms have "(s, ds) \<in> set (edges g)" "(d, k) \<in> set ds" by (auto dest: map_of_SomeD)
  then show ?thesis unfolding edge_pairs_def edges_iter_def by force
qed

lemma render_cells:
  assumes ok: "graph_ok g"
  shows "\<exists>out. render_dependency_matrix r g = Inr (out, indexed g) \<and>
           length (matrix out) = node_count g * node_count g \<and>
           MatrixData.color out = map (\<lambda>e. if e = 0 then ''#ffffff'' else out_color r) (matrix out) \<and>
           x_range out = rev (get_all_node_names g) \<and>
           y_range out = rev (get_all_node_names g) \<and>
           (\<forall>a<node_count g. \<forall>b<node_count g.
              matrix out ! (a * node_count g + b) =
                (if (rev (get_all_node_names g) ! a, rev (get_all_node_names g) ! b)
                      \<in> set (edge_pairs g) then 1 else 0)) \<and>
           sum_list (matrix out) = int (length (edge_pairs g))"
proof -
  let ?N = "node_count g"
  let ?ns = "rev (get_all_node_names g)"
  from render_dependency_matrix_eq [OF ok, of r] obtain m where
    sq: "square ?N m" and
    cells: "\<forall>a<?N. \<forall>b<?N. m ! a ! b = (if (?ns ! a, ?ns ! b) \<in> set (edge_pairs g) then 1 else 0)" and
    total: "sum_list (concat m) = int (length (edge_pairs g))" and
    run: "render_dependency_matrix r g =
      Inr (\<lparr>x_range = ?ns, y_range = ?ns,
            importing_name = concat (map (\<lambda>s. replicate ?N s) ?ns),
            imported_name = concat (map (\<lambda>s. ?ns) ?ns),
            MatrixData.color = map (\<lambda>e. if e = 0 then ''#ffffff'' else out_color r) (concat m),
            matrix = concat m\<rparr>, indexed g)"
    by blast
  have "\<forall>a<?N. \<forall>b<?N. concat m ! (a * ?N + b) =
      (if (?ns ! a, ?ns ! b) \<in> set (edge_pairs g) then 1 else 0)"
    using cells nth_concat_square [OF sq] by simp
  then show ?thesis
    unfolding run using total length_concat_square [OF sq] by simp
qed

text \<open>
  C1, as amended: the builder adds 1 to the cell at (index of source, index of
  destination) once for every destination key of every source of the edge dictionary,
  whatever multiplicity is stored under the key. For a populated graph the cell of an
  edge holds 1, every other cell holds 0, and the cells sum to the number of distinct
  (source, destination) pairs.
\<close>
theorem matrix_cell_marks_edge_once:
  assumes "graph_ok g"
  shows "\<exists>out g'. render_dependency_matrix r g = Inr (out, g') \<and>
           (\<forall>s ds d k. map_of (edges g) s = Some ds \<and> map_of ds d = Some k \<longrightarrow>
              (\<exists>i j. node_index g' s = Inr i \<and> node_index g' d = Inr j \<and>
                     i < node_count g \<and> j < node_count g \<and>
                     matrix out ! (i * node_count g + j) = 1)) \<and>
           (\<forall>a<node_count g. \<forall>b<node_count g.
              (rev (get_all_node_names g) ! a, rev (get_all_node_names g) ! b) \<notin> set (edge_pairs g) \<longrightarrow>
              matrix out ! (a * node_count g + b) = 0) \<and>
           sum_list (matrix out) = int (length (edge_pairs g))"
proof -
  let ?N = "node_count g"
  let ?ns = "rev (get_all_node_names g)"
  from render_cells [OF assms, of r] obtain out where
    run: "render_dependency_matrix r g = Inr (out, indexed g)" and
    cells: "\<forall>a<?N. \<forall>b<?N. matrix out ! (a * ?N + b) =
             (if (?ns ! a, ?ns ! b) \<in> set (edge_pairs g) then 1 else 0)" and
    total: "sum_list (matrix out) = int (length (edge_pairs g))"
    by blast
  have edge: "\<exists>i j. node_index (indexed g) s = Inr i \<and> node_index (indexed g) d = Inr j \<and>
                 i < ?N \<and> j < ?N \<and> matrix out ! (i * ?N + j) = 1"
    if "map_of (edges g) s = Some ds" "map_of ds d = Some k" for s ds d k
  proof -
    from that have mem: "(s, d) \<in> set (edge_pairs g)" by (rule edge_pairs_of_lookup)
    with graph_ok_pairs_nodes [OF assms] have "s \<in> set ?ns" "d \<in> set ?ns" by auto
    then obtain i j where ij: "i < length ?ns" "?ns ! i = s" "j < length ?ns" "?ns ! j = d"
      by (metis in_set_conv_nth)
    have lt: "i < ?N" "j < ?N" using ij(1,3) unfolding length_names by simp_all
    have "node_index (indexed g) s = Inr i" "node_index (indexed g) d = Inr j"
      using node_index_indexed [OF assms lt(1)] node_index_indexed [OF assms lt(2)] ij by simp_all
    moreover have "matrix out ! (i * ?N + j) = 1" using cells lt mem ij by simp
    ultimately show ?thesis using lt by blast
  qed
  show ?thesis
    using run cells total edge by (intro exI conjI) (assumption | blast | simp)+
qed

lemma render_example2:
  "render_dependency_matrix cli_renderer example_graph = Inr (example_matrix_data, example_indexed)"
  unfolding example_matrix_data_def example_indexed_def by (rule render_example)

lemma node_count_example: "node_count example_graph = 3"
  by (simp add: node_count_def example_graph_def)

lemma edge_pairs_example: "edge_pairs example_graph = [(''A'', ''B''), (''B'', ''A'')]"
  by (simp add: edge_pairs_def edges_iter_def example_graph_def)

text \<open>
  C1 as stated fails on the spec's example graph: the edge from A to B is stored with
  multiplicity 2, yet the cell in row 2 (A) and column 1 (B) holds 1, and the cells sum
  to 2 while the total multiplicity of the edges is 3.
\<close>

theorem matrix_cell_multiplicity_counterexample:
  "graph_ok example_graph \<and>
   render_dependency_matrix cli_renderer example_graph = Inr (example_matrix_data, example_indexed) \<and>
   multiplicity example_graph ''A'' ''B'' = 2 \<and>
   node_index example_indexed ''A'' = Inr 2 \<and>
   node_index example_indexed ''B'' = Inr 1 \<and>
   matrix example_matrix_data ! (2 * node_count example_graph + 1) = 1 \<and>
   matrix example_matrix_data ! (2 * node_count example_graph + 1) \<noteq>
     int (multiplicity example_graph ''A'' ''B'') \<and>
   total_multiplicity example_graph = 3 \<and>
   sum_list (matrix example_matrix_data) = 2 \<and>
   sum_list (matrix example_matrix_data) \<noteq> int (total_multiplicity example_graph)"
proof -
  have "multiplicity example_graph ''A'' ''B'' = 2"
    by (simp add: multiplicity_def example_graph_def)
  moreover have "node_index example_indexed ''A'' = Inr 2" "node_index example_indexed ''B'' = Inr 1"
    by (simp_all add: node_index_def get_node_def example_indexed_def new_node_def)
  moreover have "matrix example_matrix_data ! (2 * node_count example_graph + 1) = 1"
    by (simp add: node_count_example example_matrix_data_def)
  moreover have "total_multiplicity example_graph = 3"
    by (simp add: total_multiplicity_def example_graph_def)
  moreover have "sum_list (matrix example_matrix_data) = 2"
    by (simp add: example_matrix_data_def)
  ultimately show ?thesis using graph_ok_example render_example2 by simp
qed

theorem matrix_cell_marks_edge_once_witness:
  "graph_ok example_graph \<and>
   (\<exists>out g'. render_dependency_matrix cli_renderer example_graph = Inr (out, g') \<and>
      (\<exists>i j. node_index g' ''A'' = Inr i \<and> node_index g' ''B'' = Inr j \<and> i < 3 \<and> j < 3 \<and>
             matrix out ! (i * 3 + j) = 1) \<and>
      sum_list (matrix out) = 2)"
proof -
  have l1: "map_of (edges example_graph) ''A'' = Some [(''B'', 2)] \<and> map_of [(''B'', 2::nat)] ''B'' = Some 2"
    by (simp add: example_graph_def)
  from matrix_cell_marks_edge_once [OF graph_ok_example, of cli_renderer]
  obtain out g' where
    run: "render_dependency_matrix cli_renderer example_graph = Inr (out, g')" and
    edge: "\<forall>s ds d k. map_of (edges example_graph) s = Some ds \<and> map_of ds d = Some k \<longrightarrow>
              (\<exists>i j. node_index g' s = Inr i \<and> node_index g' d = Inr j \<and>
                     i < node_count example_graph \<and> j < node_count example_graph \<and>
                     matrix out ! (i * node_count example_graph + j) = 1)" and
    total: "sum_list (matrix out) = int (length (edge_pairs example_graph))"
    by blast
  from edge l1 have "\<exists>i j. node_index g' ''A'' = Inr i \<and> node_index g' ''B'' = Inr j \<and> i < 3 \<and> j < 3 \<and>
             matrix out ! (i * 3 + j) = 1"
    unfolding node_count_example by blast
  moreover have "sum_list (matrix out) = 2" using total by (simp add: edge_pairs_example)
  ultimately show ?thesis using run graph_ok_example by blast
qed

text \<open>
  C3: in the output of \<^verbatim>\<open>render_dependency_matrix\<close> every cell has a colour, the
  background colour \<^verbatim>\<open>#ffffff\<close> when its count is 0 and \<open>out_color\<close> when its count is not 0.
\<close>
theorem matrix_cell_color_by_count:
  assumes "graph_ok g"
  shows "\<exists>out g'. render_dependency_matrix r g = Inr (out, g') \<and>
           length (MatrixData.color out) = length (matrix out) \<and>
           (\<forall>k<length (matrix out).
              MatrixData.color out ! k = (if matrix out ! k = 0 then ''#ffffff'' else out_color r))"
proof -
  from render_cells [OF assms, of r] obtain out where
    run: "render_dependency_matrix r g = Inr (out, indexed g)" and
    col: "MatrixData.color out = map (\<lambda>e. if e = 0 then ''#ffffff'' else out_color r) (matrix out)"
    by blast
  have "length (MatrixData.color out) = length (matrix out)" unfolding col by simp
  moreover have "\<forall>k<length (matrix out).
      MatrixData.color out ! k = (if matrix out ! k = 0 then ''#ffffff'' else out_color r)"
    unfolding col by simp
  ultimately show ?thesis using run by blast
qed

theorem matrix_cell_color_by_count_witness:
  "graph_ok example_graph \<and>
   (\<exists>out g'. render_dependency_matrix cli_renderer example_graph = Inr (out, g') \<and>
      length (MatrixData.color out) = length (matrix out) \<and>
      matrix out ! 0 = 0 \<and> MatrixData.color out ! 0 = ''#ffffff'' \<and>
      matrix out ! 5 = 1 \<and> MatrixData.color out ! 5 = out_color cli_renderer)"
proof -
  from matrix_cell_color_by_count [OF graph_ok_example, of cli_renderer]
  obtain out g' where
    run: "render_dependency_matrix cli_renderer example_graph = Inr (out, g')" and
    len: "length (MatrixData.color out) = length (matrix out)" and
    col: "\<forall>k<length (matrix out).
            MatrixData.color out ! k = (if matrix out ! k = 0 then ''#ffffff'' else out_color cli_renderer)"
    by blast
  from run render_example2 have out: "out = example_matrix_data" by simp
  have m: "length (matrix out) = 9" "matrix out ! 0 = 0" "matrix out ! 5 = 1"
    unfolding out by (simp_all add: example_matrix_data_def)
  from col m have "MatrixData.color out ! 0 = ''#ffffff''" "MatrixData.color out ! 5 = out_color cli_renderer"
    by simp_all
  with run len m graph_ok_example show ?thesis by blast
qed

lemma list_update_all:
  assumes "\<forall>e \<in> set l. P e" "P v"
  shows "\<forall>e \<in> set (l[k := v]). P e"
proof
  fix e assume "e \<in> set (l[k := v])"
  then have "e \<in> insert v (set l)" using set_update_subset_insert by fastforce
  with assms show "P e" by auto
qed

lemma matrix_incr_nonneg:
  assumes "matrix_incr g s d m = Inr m'" "nonneg m"
  shows "nonneg m'"
proof -
  from assms(1) obtain i j where
    ij: "i < length m" "j < length (m ! i)" and m': "m' = m[i := (m ! i)[j := (m ! i) ! j + 1]]"
    unfolding matrix_incr_def by (auto split: sum.splits if_splits simp: not_le)
  have row: "m ! i \<in> set m" using ij(1) by simp
  then have old: "\<forall>e \<in> set (m ! i). 0 \<le> e" using assms(2) by (simp add: nonneg_def)
  then have "0 \<le> (m ! i) ! j" using ij(2) by simp
  then have "0 \<le> (m ! i) ! j + 1" by simp
  with old have new: "\<forall>e \<in> set ((m ! i)[j := (m ! i) ! j + 1]). 0 \<le> e"
    by (rule list_update_all)
  have "\<forall>row \<in> set m. \<forall>e \<in> set row. 0 \<le> e" using assms(2) by (simp add: nonneg_def)
  from list_update_all [of m "\<lambda>row. \<forall>e \<in> set row. 0 \<le> e", OF this new]
  show ?thesis unfolding nonneg_def m' .
qed

lemma accumulate_pairs_nonneg:
  "accumulate_pairs g ps m = Inr m' \<Longrightarrow> nonneg m \<Longrightarrow> nonneg m'"
proof (induction ps arbitrary: m)
  case Nil
  then show ?case by simp
next
  case (Cons p ps)
  obtain s d where p: "p = (s, d)" by (cases p)
  from Cons.prems(1) p obtain m1 where
    m1: "matrix_incr g s d m = Inr m1" "accumulate_pairs g ps m1 = Inr m'"
    by (auto split: sum.splits)
  from matrix_incr_nonneg [OF m1(1) Cons.prems(2)] have "nonneg m1" .
  with Cons.IH m1(2) show ?case by blast
qed

lemma nonneg_zero: "nonneg (replicate a (replicate b 0))"
  by (simp add: nonneg_def)

lemma assign_colors_nonneg:
  "\<forall>e \<in> set es. 0 \<le> e \<Longrightarrow> assign_colors (r\<lparr>in_color := c\<rparr>) es acc = assign_colors r es acc"
  by (induction es arbitrary: acc) auto

lemma render_dependency_matrix_InrD:
  assumes "render_dependency_matrix r g = Inr (out, g')"
  shows "\<exists>m. assign_indices g (enumerate 0 (rev (get_all_node_names g))) = Inr g' \<and>
             accumulate g' (edges_iter g') (replicate (node_count g) (replicate (node_count g) 0)) = Inr m \<and>
             matrix out = concat m \<and>
             MatrixData.color out = assign_colors r (concat m) []"
  using assms unfolding render_dependency_matrix_def Let_def
  by (auto split: sum.splits prod.splits)

text \<open>
  C4: whenever \<^verbatim>\<open>render_dependency_matrix\<close> returns, no cell of the matrix is negative, so
  no cell is -1 and the branch that appends \<open>in_color\<close> is never taken: the result is the
  same for every \<open>in_color\<close>.
\<close>
theorem matrix_cells_never_negative:
  assumes "render_dependency_matrix r g = Inr (out, g')"
  shows "(\<forall>e \<in> set (matrix out). 0 \<le> e) \<and> - 1 \<notin> set (matrix out) \<and>
         render_dependency_matrix (r\<lparr>in_color := c\<rparr>) g = Inr (out, g')"
proof -
  let ?N = "node_count g"
  from render_dependency_matrix_InrD [OF assms] obtain m where
    idx: "assign_indices g (enumerate 0 (rev (get_all_node_names g))) = Inr g'" and
    acc: "accumulate g' (edges_iter g') (replicate ?N (replicate ?N 0)) = Inr m" and
    out: "matrix out = concat m" "MatrixData.color out = assign_colors r (concat m) []"
    by blast
  from acc have "accumulate_pairs g' (edge_pairs g') (replicate ?N (replicate ?N 0)) = Inr m"
    by (simp add: accumulate_pairs_eq edge_pairs_def)
  from accumulate_pairs_nonneg [OF this nonneg_zero] have "nonneg m" .
  then have pos: "\<forall>e \<in> set (concat m). 0 \<le> e" by (auto simp: nonneg_def)
  have "- 1 \<notin> set (concat m)"
  proof
    assume "- 1 \<in> set (concat m)"
    with pos have "(0::int) \<le> - 1" by blast
    then show False by simp
  qed
  moreover have "render_dependency_matrix (r\<lparr>in_color := c\<rparr>) g = render_dependency_matrix r g"
    unfolding render_dependency_matrix_def Let_def
    by (simp add: idx acc assign_colors_nonneg [OF pos] split: prod.splits)
  ultimately show ?thesis using pos assms by (simp add: out)
qed

theorem matrix_cells_never_negative_witness:
  "render_dependency_matrix cli_renderer example_graph = Inr (example_matrix_data, example_indexed) \<and>
   list_all (\<lambda>e. 0 \<le> e) (matrix example_matrix_data) \<and>
   - 1 \<notin> set (matrix example_matrix_data) \<and>
   render_dependency_matrix (cli_renderer\<lparr>in_color := ''#000000''\<rparr>) example_graph =
     Inr (example_matrix_data, example_indexed)"
  using matrix_cells_never_negative [OF render_example2, of "''#000000''"] render_example2
  by (simp add: list_all_iff)

lemma get_node_indexed:
  assumes "graph_ok g" "i < node_count g"
  shows "\<exists>nd. get_node g (rev (get_all_node_names g) ! i) = Some nd \<and>
              get_node (indexed g) (rev (get_all_node_names g) ! i) = Some (nd\<lparr>index := Some i\<rparr>)"
proof -
  let ?ns = "rev (get_all_node_names g)"
  have d: "distinct ?ns" using assms(1) by (simp add: graph_ok_def get_all_node_names_def)
  have l: "i < length ?ns" using assms(2) unfolding length_names .
  have li: "last_index (enumerate 0 ?ns) (?ns ! i) = Some i"
    using last_index_enumerate [OF d l, of 0] by simp
  have "?ns ! i \<in> fst ` set (nodes g)"
    using nth_mem [OF l] by (simp add: get_all_node_names_def)
  then obtain v where v: "map_of (nodes g) (?ns ! i) = Some v"
    by (metis domD dom_map_of_conv_image_fst)
  then show ?thesis
    by (simp add: get_node_def indexed_def map_of_indexed_nodes li with_index_def)
qed

text \<open>
  C7: \<^verbatim>\<open>render_dependency_matrix\<close> uses the reversed node-name sequence for both axes and
  for the rows and columns of the cells, and leaves every node unchanged but for its
  \<open>index\<close>, which is the 0-based position of the node in that sequence.
\<close>
theorem matrix_axes_share_ordering:
  assumes "graph_ok g"
  shows "\<exists>out g'. render_dependency_matrix r g = Inr (out, g') \<and>
           x_range out = rev (get_all_node_names g) \<and>
           y_range out = x_range out \<and>
           get_all_node_names g' = get_all_node_names g \<and>
           (\<forall>i<node_count g. \<exists>nd. get_node g (x_range out ! i) = Some nd \<and>
              get_node g' (x_range out ! i) = Some (nd\<lparr>index := Some i\<rparr>)) \<and>
           (\<forall>a<node_count g. \<forall>b<node_count g.
              importing_name out ! (a * node_count g + b) = y_range out ! a \<and>
              imported_name out ! (a * node_count g + b) = x_range out ! b)"
proof -
  let ?N = "node_count g"
  let ?ns = "rev (get_all_node_names g)"
  from render_dependency_matrix_eq [OF assms, of r] obtain m where
    run: "render_dependency_matrix r g =
      Inr (\<lparr>x_range = ?ns, y_range = ?ns,
            importing_name = concat (map (\<lambda>s. replicate ?N s) ?ns),
            imported_name = concat (map (\<lambda>s. ?ns) ?ns),
            MatrixData.color = map (\<lambda>e. if e = 0 then ''#ffffff'' else out_color r) (concat m),
            matrix = concat m\<rparr>, indexed g)"
    by blast
  have len: "length ?ns = ?N" by (rule length_names)
  have cells: "\<forall>a<?N. \<forall>b<?N.
      concat (map (\<lambda>s. replicate ?N s) ?ns) ! (a * ?N + b) = ?ns ! a \<and>
      concat (map (\<lambda>s. ?ns) ?ns) ! (a * ?N + b) = ?ns ! b"
    using nth_importing [of _ ?ns] nth_imported [of _ ?ns] unfolding len by blast
  have idx: "\<forall>i<?N. \<exists>nd. get_node g (?ns ! i) = Some nd \<and>
      get_node (indexed g) (?ns ! i) = Some (nd\<lparr>index := Some i\<rparr>)"
    using get_node_indexed [OF assms] by blast
  show ?thesis
    unfolding run using cells idx by simp
qed

theorem matrix_axes_share_ordering_witness:
  "graph_ok example_graph \<and>
   (\<exists>out g'. render_dependency_matrix cli_renderer example_graph = Inr (out, g') \<and>
      x_range out = [''C'', ''B'', ''A''] \<and> y_range out = x_range out \<and>
      get_node g' ''C'' = Some ((new_node ''C'' ''module'' ''C'')\<lparr>index := Some 0\<rparr>) \<and>
      get_node g' ''B'' = Some ((new_node ''B'' ''module'' ''B'')\<lparr>index := Some 1\<rparr>) \<and>
      get_node g' ''A'' = Some ((new_node ''A'' ''module'' ''A'')\<lparr>index := Some 2\<rparr>))"
proof -
  have ns: "rev (get_all_node_names example_graph) = [''C'', ''B'', ''A'']"
    by (simp add: get_all_node_names_def example_graph_def)
  have g: "get_node example_graph ''C'' = Some (new_node ''C'' ''module'' ''C'')"
          "get_node example_graph ''B'' = Some (new_node ''B'' ''module'' ''B'')"
          "get_node example_graph ''A'' = Some (new_node ''A'' ''module'' ''A'')"
    by (simp_all add: get_node_def example_graph_def)
  from matrix_axes_share_ordering [OF graph_ok_example, of cli_renderer]
  obtain out g' where
    run: "render_dependency_matrix cli_renderer example_graph = Inr (out, g')" and
    ax: "x_range out = [''C'', ''B'', ''A'']" "y_range out = x_range out" and
    idx: "\<forall>i<3. \<exists>nd. get_node example_graph (x_range out ! i) = Some nd \<and>
              get_node g' (x_range out ! i) = Some (nd\<lparr>index := Some i\<rparr>)"
    unfolding ns node_count_example by blast
  from idx [rule_format, of 0] idx [rule_format, of 1] idx [rule_format, of 2]
  have "get_node g' ''C'' = Some ((new_node ''C'' ''module'' ''C'')\<lparr>index := Some 0\<rparr>)"
       "get_node g' ''B'' = Some ((new_node ''B'' ''module'' ''B'')\<lparr>index := Some 1\<rparr>)"
       "get_node g' ''A'' = Some ((new_node ''A'' ''module'' ''A'')\<lparr>index := Some 2\<rparr>)"
    unfolding ax by (simp_all add: g)
  with run ax graph_ok_example show ?thesis by blast
qed

lemma with_index_idem: "with_index io (with_index io nd) = with_index io nd"
  by (cases io) (simp_all add: with_index_def)

lemma indexed_nodes_idem: "indexed_nodes ps (indexed_nodes ps ns) = indexed_nodes ps ns"
  by (induction ns) (auto simp: indexed_nodes_def with_index_idem)

lemma indexed_idem: "indexed (indexed g) = indexed g"
proof -
  have "get_all_node_names (indexed g) = get_all_node_names g" by simp
  then show ?thesis
    unfolding indexed_def [of "indexed g"]
    by (simp add: indexed_def indexed_nodes_idem)
qed

lemma graph_ok_indexed: "graph_ok g \<Longrightarrow> graph_ok (indexed g)"
proof -
  have "map fst (nodes (indexed g)) = map fst (nodes g)"
    using indexed_simps(2) [of g] by (simp only: get_all_node_names_def)
  moreover have "edges (indexed g) = edges g" by simp
  ultimately show "graph_ok g \<Longrightarrow> graph_ok (indexed g)" by (simp only: graph_ok_def)
qed

lemma render_indexed:
  assumes "graph_ok g"
  shows "render_dependency_matrix r (indexed g) = render_dependency_matrix r g"
proof -
  have a: "assign_indices g (enumerate 0 (rev (get_all_node_names g))) = Inr (indexed g)"
    using assms by (rule assign_indices_indexed)
  have "assign_indices (indexed g) (enumerate 0 (rev (get_all_node_names (indexed g)))) =
          Inr (indexed (indexed g))"
    using graph_ok_indexed [OF assms] by (rule assign_indices_indexed)
  then have b: "assign_indices (indexed g) (enumerate 0 (rev (get_all_node_names g))) = Inr (indexed g)"
    by (simp add: indexed_idem)
  show ?thesis
    unfolding render_dependency_matrix_def Let_def
    by (simp add: a b split: prod.splits sum.splits)
qed

text \<open>
  C8: a second run of \<^verbatim>\<open>render_dependency_matrix\<close> with the same colours, on the graph as
  the first run left it, returns the same per-cell output and leaves the same graph.
\<close>
theorem matrix_rerun_same_output:
  assumes "graph_ok g" "render_dependency_matrix r g = Inr (out, g')"
  shows "render_dependency_matrix r g' = Inr (out, g')"
proof -
  from render_cells [OF assms(1), of r] assms(2) have "g' = indexed g" by auto
  with render_indexed [OF assms(1), of r] assms(2) show ?thesis by simp
qed

theorem matrix_rerun_same_output_witness:
  "graph_ok example_graph \<and>
   render_dependency_matrix cli_renderer example_graph = Inr (example_matrix_data, example_indexed) \<and>
   render_dependency_matrix cli_renderer example_indexed = Inr (example_matrix_data, example_indexed)"
  using matrix_rerun_same_output [OF graph_ok_example render_example2] graph_ok_example render_example2
  by simp

lemma color_nodes_lookup:
  assumes "color_nodes r gradient g ns (cs, nms) = Inr (cs', nms')" "n \<in> set ns"
          "node_color r gradient g n = Inr c"
  shows "cs' n = Some c \<and> nms' n = Some n"
  using assms
proof (induction ns arbitrary: cs nms)
  case Nil
  then show ?case by simp
next
  case (Cons a ns)
  from Cons.prems(1) obtain ca where
    ca: "node_color r gradient g a = Inr ca" and
    rest: "color_nodes r gradient g ns (cs(a \<mapsto> ca), nms(a \<mapsto> a)) = Inr (cs', nms')"
    by (auto split: sum.splits)
  show ?case
  proof (cases "n \<in> set ns")
    case True
    from Cons.IH [OF rest True Cons.prems(3)] show ?thesis .
  next
    case False
    with Cons.prems(2) have na: "n = a" by simp
    have keep: "color_nodes r gradient g l (cs0, nms0) = Inr (cs1, nms1) \<Longrightarrow> k \<notin> set l \<Longrightarrow>
                cs1 k = cs0 k \<and> nms1 k = nms0 k" for l cs0 nms0 cs1 nms1 k
      by (induction l arbitrary: cs0 nms0) (auto split: sum.splits)
    from keep [OF rest False] ca Cons.prems(3) na show ?thesis by simp
  qed
qed

text \<open>
  C5: a node whose in-degree and out-degree are both 0 gets \<open>dis_color\<close>, whatever the
  two endpoint colours and the gradient function are.
\<close>
theorem disconnected_node_color:
  assumes "n \<in> set (get_all_node_names g)" "in_degree g n = 0" "out_degree g n = 0"
  shows "node_color r gradient g n = Inr (dis_color r) \<and>
         (\<forall>colors names. render_dependency_graph r gradient g = Inr (colors, names) \<longrightarrow>
            colors n = Some (dis_color r))"
proof -
  have c: "node_color r gradient g n = Inr (dis_color r)"
    using assms(2,3) by (simp add: node_color_def)
  have "colors n = Some (dis_color r)"
    if "render_dependency_graph r gradient g = Inr (colors, names)" for colors names
    using color_nodes_lookup [OF that [unfolded render_dependency_graph_def] assms(1) c] by simp
  with c show ?thesis by blast
qed









lemma linear_gradient_eq:
  assumes "hex_to_rgb start = Some (rs, gs, bs)" "hex_to_rgb finish = Some (rf, gf, bf)"
          "0 < din + dout"
  shows "linear_gradient rounding start finish din dout =
           Inr (rgb_to_hex
                 (clamp_channel (rounding (mix_channel (of_nat rs) (of_nat rf) (of_nat din / of_nat (din + dout)))),
                  clamp_channel (rounding (mix_channel (of_nat gs) (of_nat gf) (of_nat din / of_nat (din + dout)))),
                  clamp_channel (rounding (mix_channel (of_nat bs) (of_nat bf) (of_nat din / of_nat (din + dout))))))"
  using assms by (simp add: linear_gradient_def Let_def)


lemma node_color_gradient_total:
  assumes "hex_to_rgb (out_color r) = Some (ro, go, bo)" "hex_to_rgb (in_color r) = Some (ri, gi, bi)"
  shows "\<exists>c. node_color r (linear_gradient rounding) g n = Inr c"
proof (cases "in_degree g n = 0 \<and> out_degree g n = 0")
  case True
  then show ?thesis by (simp add: node_color_def)
next
  case False
  then have "0 < in_degree g n + out_degree g n" by simp
  from linear_gradient_eq [OF assms this, of rounding] False
  show ?thesis by (simp add: node_color_def Let_def)
qed

lemma color_nodes_total:
  "\<forall>n \<in> set ns. \<exists>c. node_color r gradient g n = Inr c \<Longrightarrow>
   \<exists>cs' nms'. color_nodes r gradient g ns (cs, nms) = Inr (cs', nms')"
  by (induction ns arbitrary: cs nms) (auto split: sum.splits)

lemma render_dependency_graph_total:
  assumes "hex_to_rgb (out_color r) = Some (ro, go, bo)" "hex_to_rgb (in_color r) = Some (ri, gi, bi)"
  shows "\<exists>colors names. render_dependency_graph r (linear_gradient rounding) g = Inr (colors, names)"
  unfolding render_dependency_graph_def
  using node_color_gradient_total [OF assms] by (intro color_nodes_total) blast


lemma degrees_example:
  "in_degree example_graph ''A'' = 1" "out_degree example_graph ''A'' = 2"
  "in_degree example_graph ''C'' = 0" "out_degree example_graph ''C'' = 0"
  by (simp_all add: in_degree_def out_degree_def example_graph_def)

lemma names_example: "get_all_node_names example_graph = [''A'', ''B'', ''C'']"
  by (simp add: get_all_node_names_def example_graph_def)



lemma cli_colors:
  "hex_to_rgb (out_color cli_renderer) = Some (66, 138, 255)"
  "hex_to_rgb (in_color cli_renderer) = Some (242, 109, 144)"
  by (simp_all add: cli_renderer_def hex_to_rgb_def hex_channel_def hex_value_def)







theorem disconnected_node_color_witness:
  "''C'' \<in> set (get_all_node_names example_graph) \<and>
   in_degree example_graph ''C'' = 0 \<and> out_degree example_graph ''C'' = 0 \<and>
   node_color cli_renderer (linear_gradient floor) example_graph ''C'' = Inr (dis_color cli_renderer) \<and>
   (\<exists>colors names. render_dependency_graph cli_renderer (linear_gradient floor) example_graph = Inr (colors, names) \<and>
      colors ''C'' = Some (dis_color cli_renderer))"
proof -
  have h1: "''C'' \<in> set (get_all_node_names example_graph)" by (simp add: names_example)
  note d = disconnected_node_color [OF h1 degrees_example(3,4), of cli_renderer "linear_gradient floor"]
  from render_dependency_graph_total [OF cli_colors, of floor example_graph] obtain colors names where
    run: "render_dependency_graph cli_renderer (linear_gradient floor) example_graph = Inr (colors, names)"
    by blast
  with d have "colors ''C'' = Some (dis_color cli_renderer)" by blast
  with run d h1 degrees_example(3,4) show ?thesis by blast
qed

lemma map_filter_append: "List.map_filter f (a @ b) = List.map_filter f a @ List.map_filter f b"
  by (simp add: List.map_filter_def)

lemma collect_edge_ends_eq:
  "collect_edge_ends g b ends ed =
     \<lparr>xs = xs ed @ map fst (List.map_filter (edge_coordinates g) (map (\<lambda>d. (b, d)) ends)),
      ys = ys ed @ map snd (List.map_filter (edge_coordinates g) (map (\<lambda>d. (b, d)) ends))\<rparr>"
  by (induction ends arbitrary: ed)
     (auto simp: edge_coordinates_def List.map_filter_simps split: option.splits)

lemma collect_edges_eq:
  "collect_edges g es ed =
     \<lparr>xs = xs ed @ map fst (List.map_filter (edge_coordinates g)
              (concat (map (\<lambda>(s, ds). map (\<lambda>d. (s, d)) (map fst ds)) es))),
      ys = ys ed @ map snd (List.map_filter (edge_coordinates g)
              (concat (map (\<lambda>(s, ds). map (\<lambda>d. (s, d)) (map fst ds)) es)))\<rparr>"
  by (induction es arbitrary: ed) (auto simp: collect_edge_ends_eq map_filter_append)

lemma collect_nodes_eq:
  "collect_nodes r fs ns nd =
     \<lparr>center_x = center_x nd @ map Node.x ns,
      center_y = center_y nd @ map Node.y ns,
      width = NodeData.width nd @ map Node.width ns,
      height = NodeData.height nd @ map Node.height ns,
      name = NodeData.name nd @ map Node.label ns,
      type = NodeData.type nd @ map Node.type ns,
      label = NodeData.label nd @ map Node.label ns,
      font_size = font_size nd @ map (\<lambda>n. fs) ns,
      color = NodeData.color nd @ map (\<lambda>n. type_color r (Node.type n)) ns\<rparr>"
  by (induction ns arbitrary: nd) (simp_all add: type_color_def)

lemma render_structure_graph_eq:
  assumes "layout g (base_width * base_font_size / 60) (base_height * base_font_size * 4 / 10) = Inr g'"
  shows "render_structure_graph r layout g base_width base_height base_font_size =
           Inr (collect_nodes r base_font_size (nodes_iter g')
                  \<lparr>center_x = [], center_y = [], width = [], height = [], name = [],
                   type = [], label = [], font_size = [], color = []\<rparr>,
                collect_edges g' (edges_iter g') \<lparr>xs = [], ys = []\<rparr>,
                g')"
  unfolding render_structure_graph_def Let_def by (simp only: assms sum.case)

lemma length_map_filter_coordinates:
  "length (List.map_filter (edge_coordinates g) ps) =
   length (filter (\<lambda>(s, d). get_node g s \<noteq> None \<and> get_node g d \<noteq> None) ps)"
  by (induction ps) (auto simp: List.map_filter_simps edge_coordinates_def split: option.splits)

text \<open>
  C9: \<^verbatim>\<open>render_structure_graph\<close> appends one pair of x coordinates and one pair of y
  coordinates for exactly the edges whose two names \<^verbatim>\<open>get_node\<close> finds, in the order of
  the edges; an edge with a missing endpoint adds nothing and raises nothing.
\<close>
theorem structure_edges_need_both_nodes:
  assumes "layout g (base_width * base_font_size / 60) (base_height * base_font_size * 4 / 10) = Inr g'"
  shows "\<exists>nd ed. render_structure_graph r layout g base_width base_height base_font_size = Inr (nd, ed, g') \<and>
           xs ed = map fst (List.map_filter (edge_coordinates g') (edge_pairs g')) \<and>
           ys ed = map snd (List.map_filter (edge_coordinates g') (edge_pairs g')) \<and>
           length (xs ed) = length (filter (\<lambda>(s, d). get_node g' s \<noteq> None \<and> get_node g' d \<noteq> None) (edge_pairs g'))"
proof -
  let ?ed = "collect_edges g' (edges_iter g') \<lparr>xs = [], ys = []\<rparr>"
  have e: "xs ?ed = map fst (List.map_filter (edge_coordinates g') (edge_pairs g'))"
          "ys ?ed = map snd (List.map_filter (edge_coordinates g') (edge_pairs g'))"
    by (simp_all add: collect_edges_eq edge_pairs_def)
  have "length (xs ?ed) =
        length (filter (\<lambda>(s, d). get_node g' s \<noteq> None \<and> get_node g' d \<noteq> None) (edge_pairs g'))"
    unfolding e(1) length_map by (rule length_map_filter_coordinates)
  with e render_structure_graph_eq [where layout = layout and r = r, OF assms] show ?thesis by blast
qed

text \<open>
  C10: in the node data of \<^verbatim>\<open>render_structure_graph\<close> the colour of a node is the root
  colour when its type is \<^verbatim>\<open>root\<close>, the directory colour when its type is \<^verbatim>\<open>directory\<close>,
  and the file colour for every other type.
\<close>
theorem structure_node_color_by_type:
  assumes "layout g (base_width * base_font_size / 60) (base_height * base_font_size * 4 / 10) = Inr g'"
  shows "\<exists>nd ed. render_structure_graph r layout g base_width base_height base_font_size = Inr (nd, ed, g') \<and>
           NodeData.type nd = map Node.type (nodes_iter g') \<and>
           NodeData.color nd =
             map (\<lambda>t. if t = ''root'' then root_dir_color r
                       else if t = ''directory'' then dir_color r
                       else file_color r) (NodeData.type nd)"
proof -
  let ?nd = "collect_nodes r base_font_size (nodes_iter g')
                  \<lparr>center_x = [], center_y = [], width = [], height = [], name = [],
                   type = [], label = [], font_size = [], color = []\<rparr>"
  have t: "NodeData.type ?nd = map Node.type (nodes_iter g')"
    by (simp add: collect_nodes_eq)
  have "NodeData.color ?nd = map (\<lambda>t. if t = ''root'' then root_dir_color r
                       else if t = ''directory'' then dir_color r
                       else file_color r) (NodeData.type ?nd)"
    unfolding t by (simp add: collect_nodes_eq type_color_def comp_def)
  with t render_structure_graph_eq [where layout = layout and r = r, OF assms] show ?thesis by blast
qed

lemma keep_layout_example:
  "keep_layout example_tree (3 / 10 * 30 / 60) (2 / 10 * 30 * 4 / 10) = Inr example_tree"
  by (simp add: keep_layout_def)

lemma edge_pairs_tree:
  "edge_pairs example_tree = [(''/'', ''/src''), (''/'', ''/gone''), (''/'', ''/a.py'')]"
  by (simp add: edge_pairs_def edges_iter_def example_tree_def)

theorem structure_edges_need_both_nodes_witness:
  "keep_layout example_tree (3 / 10 * 30 / 60) (2 / 10 * 30 * 4 / 10) = Inr example_tree \<and>
   get_node example_tree ''/gone'' = None \<and>
   (\<exists>nd ed. render_structure_graph cli_renderer keep_layout example_tree (3 / 10) (2 / 10) 30 =
        Inr (nd, ed, example_tree) \<and>
      xs ed = [(Some 0, Some (- 1)), (Some 0, Some 1)] \<and>
      ys ed = [(Some 0, Some 1), (Some 0, Some 1)])"
proof -
  have mf: "List.map_filter (edge_coordinates example_tree) (edge_pairs example_tree) =
      [((Some 0, Some (- 1)), (Some 0, Some 1)), ((Some 0, Some 1), (Some 0, Some 1))]"
    unfolding edge_pairs_tree
    by (simp add: List.map_filter_simps edge_coordinates_def get_node_def example_tree_def new_node_def)
  have gone: "get_node example_tree ''/gone'' = None"
    by (simp add: get_node_def example_tree_def)
  from structure_edges_need_both_nodes [where layout = keep_layout and g = example_tree and base_width = "3 / 10"
      and base_height = "2 / 10" and base_font_size = 30 and r = cli_renderer, OF keep_layout_example]
  show ?thesis unfolding mf using keep_layout_example gone by auto
qed

theorem structure_node_color_by_type_witness:
  "keep_layout example_tree (3 / 10 * 30 / 60) (2 / 10 * 30 * 4 / 10) = Inr example_tree \<and>
   (\<exists>nd ed. render_structure_graph cli_renderer keep_layout example_tree (3 / 10) (2 / 10) 30 =
        Inr (nd, ed, example_tree) \<and>
      NodeData.type nd = [''root'', ''directory'', ''file'', ''link''] \<and>
      NodeData.color nd = [''#377FB4'', ''#82CBBA'', ''#ECF7B3'', ''#ECF7B3''])"
proof -
  have ty: "map Node.type (nodes_iter example_tree) = [''root'', ''directory'', ''file'', ''link'']"
    by (simp add: nodes_iter_def example_tree_def new_node_def)
  from structure_node_color_by_type [where layout = keep_layout and g = example_tree and base_width = "3 / 10"
      and base_height = "2 / 10" and base_font_size = 30 and r = cli_renderer, OF keep_layout_example]
  obtain nd ed where
    run: "render_structure_graph cli_renderer keep_layout example_tree (3 / 10) (2 / 10) 30 =
            Inr (nd, ed, example_tree)" and
    t: "NodeData.type nd = [''root'', ''directory'', ''file'', ''link'']" and
    c: "NodeData.color nd = map (\<lambda>t. if t = ''root'' then root_dir_color cli_renderer
                       else if t = ''directory'' then dir_color cli_renderer
                       else file_color cli_renderer) (NodeData.type nd)"
    unfolding ty by blast
  have "NodeData.color nd = [''#377FB4'', ''#82CBBA'', ''#ECF7B3'', ''#ECF7B3'']"
    unfolding c t by (simp add: cli_renderer_def)
  with run t keep_layout_example show ?thesis by blast
qed

end
